theory Spec2Isabelle
  imports Complex_Main "HOL-Library.Word"
begin

section \<open>JavaScript strings\<close>

text \<open>
  A JavaScript string is a sequence of UTF-16 code units. A code unit is modelled as a
  natural number (below 65536 in every string the program can hold); nothing below
  produces a larger one. String literals of the source are written with \<open>js\<close>.
\<close>

type_synonym jsstring = "nat list"

definition js :: "string \<Rightarrow> jsstring" where
  "js s = map of_char s"

text \<open>\<^verbatim>\<open>String.prototype.startsWith\<close>.\<close>

fun startsWith :: "jsstring \<Rightarrow> jsstring \<Rightarrow> bool" where
  "startsWith s [] = True"
| "startsWith [] (p # ps) = False"
| "startsWith (c # cs) (p # ps) = (c = p \<and> startsWith cs ps)"

text \<open>
  \<^verbatim>\<open>s.replace(pat, rep)\<close> with a string pattern: the first occurrence of the pattern
  is replaced, the rest is kept. (The replacement strings of the source are empty, so the
  \<^verbatim>\<open>$\<close> patterns of a replacement string do not arise.)
\<close>

fun replace :: "jsstring \<Rightarrow> jsstring \<Rightarrow> jsstring \<Rightarrow> jsstring" where
  "replace [] pat rep = (if pat = [] then rep else [])"
| "replace (c # cs) pat rep =
     (if startsWith (c # cs) pat then rep @ drop (length pat) (c # cs)
      else c # replace cs pat rep)"

text \<open>
  The code units that \<^verbatim>\<open>String.prototype.trim\<close> strips: ECMAScript's WhiteSpace and
  LineTerminator (TAB, LF, VT, FF, CR, SPACE, NBSP, U+1680, U+2000 to U+200A, U+2028,
  U+2029, U+202F, U+205F, U+3000, U+FEFF).
\<close>

definition isWhiteSpace :: "nat \<Rightarrow> bool" where
  "isWhiteSpace c =
     (c = 9 \<or> c = 10 \<or> c = 11 \<or> c = 12 \<or> c = 13 \<or> c = 32 \<or> c = 160 \<or> c = 5760 \<or>
      (8192 \<le> c \<and> c \<le> 8202) \<or> c = 8232 \<or> c = 8233 \<or> c = 8239 \<or> c = 8287 \<or>
      c = 12288 \<or> c = 65279)"

definition trim :: "jsstring \<Rightarrow> jsstring" where
  "trim s = rev (dropWhile isWhiteSpace (rev (dropWhile isWhiteSpace s)))"

text \<open>
  \<^verbatim>\<open>s.split(sep)\<close> with a separator of one code unit: the pieces between the
  separators, in order; the empty string gives one empty piece.
\<close>

fun split :: "jsstring \<Rightarrow> nat \<Rightarrow> jsstring list" where
  "split [] sep = [[]]"
| "split (c # cs) sep =
     (if c = sep then [] # split cs sep
      else (case split cs sep of
              [] \<Rightarrow> [[c]]
            | p # ps \<Rightarrow> (c # p) # ps))"

text \<open>\<^verbatim>\<open>parts.join(sep)\<close>.\<close>

fun join :: "jsstring list \<Rightarrow> jsstring \<Rightarrow> jsstring" where
  "join [] sep = []"
| "join [p] sep = p"
| "join (p # q # ps) sep = p @ sep @ join (q # ps) sep"

text \<open>\<^verbatim>\<open>a || b\<close> on strings: the empty string is falsy.\<close>

definition orElse :: "jsstring \<Rightarrow> jsstring \<Rightarrow> jsstring" where
  "orElse a b = (if a = [] then b else a)"

section \<open>The directive parser (EmergencyCoach.tsx)\<close>

record ParsedResource =
  label :: jsstring
  description :: jsstring

record ParsedMessage =
  parsed_text :: jsstring
  resources :: "ParsedResource list"
  triggerCall :: bool

definition CALL_EMERGENCY_CONTACT :: jsstring where
  "CALL_EMERGENCY_CONTACT = js ''[[CALL_EMERGENCY_CONTACT]]''"

definition LINKS :: jsstring where
  "LINKS = js ''[[LINKS]]''"

text \<open>
  The regular expression \<^verbatim>\<open>/\[\[LINKS\]\](.+)$/s\<close>: the literal marker, then one or more
  code units of any kind (the \<^verbatim>\<open>s\<close> flag lets the dot match line terminators), up to
  the end of the input (no \<^verbatim>\<open>m\<close> flag). The leftmost match starts at the first place
  where the marker stands with at least one code unit after it, and runs to the end.
  \<open>matchLinks\<close> returns the text before the match and the capture group.
\<close>

fun matchLinks :: "jsstring \<Rightarrow> (jsstring \<times> jsstring) option" where
  "matchLinks [] = None"
| "matchLinks (c # cs) =
     (if startsWith (c # cs) LINKS \<and> drop (length LINKS) (c # cs) \<noteq> []
      then Some ([], drop (length LINKS) (c # cs))
      else (case matchLinks cs of
              None \<Rightarrow> None
            | Some (front, grp) \<Rightarrow> Some (c # front, grp)))"

text \<open>The callback of \<^verbatim>\<open>resourceParts.map\<close>.\<close>

definition parseResource :: "jsstring \<Rightarrow> ParsedResource" where
  "parseResource part =
     (case split part (of_char CHR '':'') of
        [] \<Rightarrow> \<lparr>label = js ''Resource'', description = []\<rparr>
      | lbl # descParts \<Rightarrow>
          \<lparr>label = orElse (trim lbl) (js ''Resource''),
           description = orElse (trim (join descParts (js '':''))) []\<rparr>)"

definition parseAssistantMessage :: "jsstring \<Rightarrow> ParsedMessage" where
  "parseAssistantMessage rawText =
     (let trig = startsWith rawText CALL_EMERGENCY_CONTACT;
          text1 = (if trig then trim (replace rawText CALL_EMERGENCY_CONTACT []) else rawText)
      in case matchLinks text1 of
           None \<Rightarrow> \<lparr>parsed_text = text1, resources = [], triggerCall = trig\<rparr>
         | Some (front, grp) \<Rightarrow>
             (let linksSection = trim grp;
                  text2 = trim front;
                  resourceParts = filter (\<lambda>p. trim p \<noteq> []) (split linksSection (of_char CHR '';''))
              in \<lparr>parsed_text = text2, resources = map parseResource resourceParts,
                  triggerCall = trig\<rparr>))"

text \<open>\<^verbatim>\<open>s.includes(pat)\<close>: the pattern occurs somewhere in the string.\<close>

fun includes_str :: "jsstring \<Rightarrow> jsstring \<Rightarrow> bool" where
  "includes_str [] pat = (pat = [])"
| "includes_str (c # cs) pat = (startsWith (c # cs) pat \<or> includes_str cs pat)"

section \<open>The audio codec (useElevenLabsAgent)\<close>

subsection \<open>Numbers and typed arrays\<close>

text \<open>
  A JavaScript number that came out of a \<^verbatim>\<open>Float32Array\<close>: not-a-number, an infinity,
  or a finite value. A finite float is a real number; the element is widened to a double
  without loss, and the two products of \<open>float32ToInt16\<close> (a 24-bit significand times
  \<^verbatim>\<open>0x8000\<close> or \<^verbatim>\<open>0x7fff\<close>) and the quotient of \<open>base64ToFloat32\<close> (a 16-bit
  integer over \<^verbatim>\<open>0x8000\<close>) are exact in double arithmetic, so on the values the code
  computes with, the arithmetic of doubles is the arithmetic of the reals.
\<close>

datatype jsnumber = NaN | NegInfinity | PosInfinity | Finite real

type_synonym Float32Array = "jsnumber list"
type_synonym Int16Array = "16 word list"

text \<open>An exception that the codec can throw, by the name of its class.\<close>

datatype Exception =
    InvalidCharacterError
  | RangeError

fun Math_min :: "jsnumber \<Rightarrow> jsnumber \<Rightarrow> jsnumber" where
  "Math_min NaN y = NaN"
| "Math_min x NaN = NaN"
| "Math_min NegInfinity y = NegInfinity"
| "Math_min x NegInfinity = NegInfinity"
| "Math_min PosInfinity y = y"
| "Math_min x PosInfinity = x"
| "Math_min (Finite x) (Finite y) = Finite (min x y)"

fun Math_max :: "jsnumber \<Rightarrow> jsnumber \<Rightarrow> jsnumber" where
  "Math_max NaN y = NaN"
| "Math_max x NaN = NaN"
| "Math_max PosInfinity y = PosInfinity"
| "Math_max x PosInfinity = PosInfinity"
| "Math_max NegInfinity y = y"
| "Math_max x NegInfinity = x"
| "Math_max (Finite x) (Finite y) = Finite (max x y)"

text \<open>\<^verbatim>\<open>s < 0\<close>: false on not-a-number.\<close>

fun lessZero :: "jsnumber \<Rightarrow> bool" where
  "lessZero NaN = False"
| "lessZero NegInfinity = True"
| "lessZero PosInfinity = False"
| "lessZero (Finite x) = (x < 0)"

text \<open>\<^verbatim>\<open>s * k\<close> for a positive constant \<open>k\<close> (\<^verbatim>\<open>0x8000\<close> and \<^verbatim>\<open>0x7fff\<close> in the source).\<close>

fun timesConst :: "jsnumber \<Rightarrow> real \<Rightarrow> jsnumber" where
  "timesConst NaN k = NaN"
| "timesConst NegInfinity k = NegInfinity"
| "timesConst PosInfinity k = PosInfinity"
| "timesConst (Finite x) k = Finite (x * k)"

text \<open>Rounding towards zero, the integer part that a typed array stores.\<close>

definition trunc :: "real \<Rightarrow> int" where
  "trunc x = (if x < 0 then - \<lfloor>- x\<rfloor> else \<lfloor>x\<rfloor>)"

text \<open>
  The store into an \<^verbatim>\<open>Int16Array\<close> element (ECMAScript's ToInt16): a number that is not
  finite becomes 0; a finite one is truncated and reduced modulo \<open>2 ^ 16\<close>, which is what
  \<open>word_of_int\<close> does; \<open>sint\<close> reads the element back as a signed integer.
\<close>

fun ToInt16 :: "jsnumber \<Rightarrow> 16 word" where
  "ToInt16 (Finite x) = word_of_int (trunc x)"
| "ToInt16 _ = 0"

subsection \<open>float32ToInt16\<close>

text \<open>The body of the loop: the clamped sample and the number assigned to the element.\<close>

definition clampSample :: "jsnumber \<Rightarrow> jsnumber" where
  "clampSample x = Math_max (Finite (- 1)) (Math_min (Finite 1) x)"

definition scaleSample :: "jsnumber \<Rightarrow> jsnumber" where
  "scaleSample x =
     (let s = clampSample x
      in if lessZero s then timesConst s 32768 else timesConst s 32767)"

definition float32ToInt16 :: "Float32Array \<Rightarrow> Int16Array" where
  "float32ToInt16 float32Array = map (\<lambda>x. ToInt16 (scaleSample x)) float32Array"

subsection \<open>Typed-array views\<close>

text \<open>
  A \<^verbatim>\<open>Uint8Array\<close> over the buffer of an \<^verbatim>\<open>Int16Array\<close>, and back: each element is
  two bytes in the byte order of the platform. A byte is a natural number below 256.
\<close>

datatype endianness = LittleEndian | BigEndian

definition int16Bytes :: "endianness \<Rightarrow> 16 word \<Rightarrow> nat list" where
  "int16Bytes e w =
     (case e of
        LittleEndian \<Rightarrow> [unat w mod 256, unat w div 256]
      | BigEndian \<Rightarrow> [unat w div 256, unat w mod 256])"

definition uint8View :: "endianness \<Rightarrow> Int16Array \<Rightarrow> nat list" where
  "uint8View e int16Array = concat (map (int16Bytes e) int16Array)"

definition bytesInt16 :: "endianness \<Rightarrow> nat \<Rightarrow> nat \<Rightarrow> 16 word" where
  "bytesInt16 e b0 b1 =
     (case e of
        LittleEndian \<Rightarrow> word_of_nat (b0 + 256 * b1)
      | BigEndian \<Rightarrow> word_of_nat (256 * b0 + b1))"

text \<open>
  \<^verbatim>\<open>new Int16Array(bytes.buffer)\<close> throws a RangeError when the byte length of the buffer
  is odd.
\<close>

fun int16View :: "endianness \<Rightarrow> nat list \<Rightarrow> Exception + Int16Array" where
  "int16View e [] = Inr []"
| "int16View e [b] = Inl RangeError"
| "int16View e (b0 # b1 # bs) =
     (case int16View e bs of
        Inl err \<Rightarrow> Inl err
      | Inr ws \<Rightarrow> Inr (bytesInt16 e b0 b1 # ws))"

subsection \<open>btoa and atob\<close>

text \<open>
  The two functions are the platform's (HTML Standard, forgiving-base64 encode and
  decode), over the alphabet of RFC 4648. A sextet is a natural number below 64.
\<close>

definition base64Char :: "nat \<Rightarrow> nat" where
  "base64Char n =
     (if n < 26 then 65 + n
      else if n < 52 then 71 + n
      else if n < 62 then n - 4
      else if n = 62 then 43
      else 47)"

definition isBase64Char :: "nat \<Rightarrow> bool" where
  "isBase64Char c =
     ((65 \<le> c \<and> c \<le> 90) \<or> (97 \<le> c \<and> c \<le> 122) \<or> (48 \<le> c \<and> c \<le> 57) \<or> c = 43 \<or> c = 47)"

definition sextetOf :: "nat \<Rightarrow> nat" where
  "sextetOf c =
     (if 65 \<le> c \<and> c \<le> 90 then c - 65
      else if 97 \<le> c \<and> c \<le> 122 then c - 71
      else if 48 \<le> c \<and> c \<le> 57 then c + 4
      else if c = 43 then 62
      else 63)"

fun base64Encode :: "nat list \<Rightarrow> jsstring" where
  "base64Encode [] = []"
| "base64Encode [a] =
     [base64Char (a div 4), base64Char ((a mod 4) * 16), 61, 61]"
| "base64Encode [a, b] =
     [base64Char (a div 4), base64Char ((a mod 4) * 16 + b div 16),
      base64Char ((b mod 16) * 4), 61]"
| "base64Encode (a # b # c # bs) =
     [base64Char (a div 4), base64Char ((a mod 4) * 16 + b div 16),
      base64Char ((b mod 16) * 4 + c div 64), base64Char (c mod 64)] @ base64Encode bs"

text \<open>
  \<^verbatim>\<open>btoa\<close> throws an InvalidCharacterError when a code unit of the string is above
  U+00FF.
\<close>

definition btoa :: "jsstring \<Rightarrow> Exception + jsstring" where
  "btoa s =
     (if list_ex (\<lambda>c. 255 < c) s then Inl InvalidCharacterError
      else Inr (base64Encode s))"

definition isAsciiWhitespace :: "nat \<Rightarrow> bool" where
  "isAsciiWhitespace c = (c = 9 \<or> c = 10 \<or> c = 12 \<or> c = 13 \<or> c = 32)"

text \<open>\<open>=\<close> is code unit 61; one or two of them at the end are removed.\<close>

definition stripPadding :: "jsstring \<Rightarrow> jsstring" where
  "stripPadding d =
     (if 2 \<le> length d \<and> last d = 61 \<and> last (butlast d) = 61 then butlast (butlast d)
      else if d \<noteq> [] \<and> last d = 61 then butlast d
      else d)"

text \<open>
  Four sextets give three bytes; of a last group of two the low four bits are dropped,
  of a last group of three the low two bits.
\<close>

fun decodeSextets :: "nat list \<Rightarrow> nat list" where
  "decodeSextets (p # q # r # s # rest) =
     [p * 4 + q div 16, (q mod 16) * 16 + r div 4, (r mod 4) * 64 + s] @ decodeSextets rest"
| "decodeSextets [p, q, r] = [p * 4 + q div 16, (q mod 16) * 16 + r div 4]"
| "decodeSextets [p, q] = [p * 4 + q div 16]"
| "decodeSextets _ = []"

definition atob :: "jsstring \<Rightarrow> Exception + jsstring" where
  "atob data =
     (let d1 = filter (\<lambda>c. \<not> isAsciiWhitespace c) data;
          d2 = (if length d1 mod 4 = 0 then stripPadding d1 else d1)
      in if length d2 mod 4 = 1 \<or> \<not> list_all isBase64Char d2 then Inl InvalidCharacterError
         else Inr (decodeSextets (map sextetOf d2)))"

subsection \<open>int16ToBase64 and base64ToFloat32\<close>

text \<open>\<^verbatim>\<open>String.fromCharCode\<close> of a byte is the code unit of the same number.\<close>

definition int16ToBase64 :: "endianness \<Rightarrow> Int16Array \<Rightarrow> Exception + jsstring" where
  "int16ToBase64 e int16Array = btoa (uint8View e int16Array)"

text \<open>
  The first half of \<open>base64ToFloat32\<close>, up to the \<^verbatim>\<open>Int16Array\<close> over the decoded bytes:
  \<^verbatim>\<open>charCodeAt\<close> gives the code unit, and the store into the \<^verbatim>\<open>Uint8Array\<close> keeps it
  modulo 256.
\<close>

definition base64ToInt16 :: "endianness \<Rightarrow> jsstring \<Rightarrow> Exception + Int16Array" where
  "base64ToInt16 e base64 =
     (case atob base64 of
        Inl err \<Rightarrow> Inl err
      | Inr binary \<Rightarrow> int16View e (map (\<lambda>c. c mod 256) binary))"

text \<open>The body of the second loop: \<^verbatim>\<open>int16Array[i] / 0x8000\<close>.\<close>

definition int16ToFloat32 :: "16 word \<Rightarrow> jsnumber" where
  "int16ToFloat32 w = Finite (real_of_int (sint w) / 32768)"

definition base64ToFloat32 :: "endianness \<Rightarrow> jsstring \<Rightarrow> Exception + Float32Array" where
  "base64ToFloat32 e base64 =
     (case base64ToInt16 e base64 of
        Inl err \<Rightarrow> Inl err
      | Inr int16Array \<Rightarrow> Inr (map int16ToFloat32 int16Array))"

section \<open>The session (useElevenLabsAgent)\<close>

subsection \<open>State\<close>

datatype AgentStatus = disconnected | connecting | connected | listening | speaking

datatype Role = user | assistant

record TranscriptMessage =
  msg_id :: jsstring
  role :: Role
  msg_text :: jsstring

datatype ReadyState = CONNECTING | OPEN | CLOSING | CLOSED

text \<open>The messages the hook sends over the socket.\<close>

datatype Outbound =
    ConversationInitiationClientData
  | AudioOut jsstring
  | UserMessage jsstring
  | Pong

text \<open>
  The calls the hook makes on platform objects, in the order made, and the \<^verbatim>\<open>onended\<close>
  notifications of the buffer sources it started. Audio contexts and script processors
  are numbered as they are created, sockets by their place in \<open>sockets\<close>, a media stream
  by the number the platform gave it. Console output is left out.
\<close>

datatype Effect =
    GetUserMedia
  | NewAudioContext nat
  | AudioContextClose nat
  | NewWebSocket nat jsstring
  | WsSend nat Outbound
  | WsClose nat
  | TrackStop nat
  | CreateScriptProcessor nat
  | ProcessorDisconnect nat
  | SourceStart Float32Array
  | SourceEnded Float32Array

text \<open>
  The two \<^verbatim>\<open>useState\<close> cells and the seven refs of the hook, and what of the platform
  the hook acts on: the ready state of every socket it has created, the buffer sources
  that are playing (each with a playback loop suspended on its \<^verbatim>\<open>onended\<close>), and the
  effects so far.
\<close>

record Agent =
  status :: AgentStatus
  messages :: "TranscriptMessage list"
  wsRef :: "nat option"
  mediaStreamRef :: "nat option"
  audioContextRef :: "nat option"
  playbackContextRef :: "nat option"
  audioQueueRef :: "Float32Array list"
  isPlayingRef :: bool
  processorRef :: "nat option"
  sockets :: "ReadyState list"
  sources :: "Float32Array list"
  effects :: "Effect list"
  nextId :: nat

definition initialAgent :: Agent where
  "initialAgent =
     \<lparr>status = disconnected, messages = [], wsRef = None, mediaStreamRef = None,
      audioContextRef = None, playbackContextRef = None, audioQueueRef = [],
      isPlayingRef = False, processorRef = None, sockets = [], sources = [],
      effects = [], nextId = 0\<rparr>"

definition effect :: "Effect \<Rightarrow> Agent \<Rightarrow> Agent" where
  "effect x a = a\<lparr>effects := effects a @ [x]\<rparr>"

text \<open>\<^verbatim>\<open>wsRef.current?.readyState === WebSocket.OPEN\<close>.\<close>

definition wsIsOpen :: "Agent \<Rightarrow> bool" where
  "wsIsOpen a =
     (case wsRef a of
        None \<Rightarrow> False
      | Some i \<Rightarrow> i < length (sockets a) \<and> sockets a ! i = OPEN)"

text \<open>The decimal digits of a number, as a template literal prints an integer.\<close>

function toString :: "nat \<Rightarrow> jsstring" where
  "toString n = (if n < 10 then [48 + n] else toString (n div 10) @ [48 + n mod 10])"
  by pat_completeness auto
termination
  by (relation "measure (\<lambda>n. n)") auto

text \<open>An optional string field of a message is truthy when it is there and not empty.\<close>

definition truthy :: "jsstring option \<Rightarrow> bool" where
  "truthy t = (case t of None \<Rightarrow> False | Some s \<Rightarrow> s \<noteq> [])"

definition stringOf :: "jsstring option \<Rightarrow> jsstring" where
  "stringOf t = (case t of None \<Rightarrow> [] | Some s \<Rightarrow> s)"

subsection \<open>Audio playback\<close>

text \<open>
  The \<^verbatim>\<open>while\<close> loop of \<open>playAudioChunk\<close>, from its test to the next \<^verbatim>\<open>await\<close>. With an
  empty queue the loop ends and clears \<open>isPlayingRef\<close>. Otherwise the first chunk is
  shifted off the queue (a \<^verbatim>\<open>Float32Array\<close> is an object, so \<^verbatim>\<open>!chunk\<close> is false); then
  \<^verbatim>\<open>playbackContextRef.current.createBuffer\<close> throws a TypeError when the ref is null
  and a NotSupportedError when the chunk has no samples (the length of an audio buffer
  must be at least 1), and the exception ends the loop where it stands, with
  \<open>isPlayingRef\<close> still set; else the source is started and the loop is suspended until
  its \<^verbatim>\<open>onended\<close>.
\<close>

definition playbackLoop :: "Agent \<Rightarrow> Agent" where
  "playbackLoop a =
     (case audioQueueRef a of
        [] \<Rightarrow> a\<lparr>isPlayingRef := False\<rparr>
      | chunk # rest \<Rightarrow>
          (let a1 = a\<lparr>audioQueueRef := rest\<rparr>
           in if playbackContextRef a1 = None \<or> chunk = [] then a1
              else effect (SourceStart chunk) (a1\<lparr>sources := sources a1 @ [chunk]\<rparr>)))"

definition playAudioChunk :: "Float32Array \<Rightarrow> Agent \<Rightarrow> Agent" where
  "playAudioChunk audioData a =
     (let a1 = (if playbackContextRef a = None
                then effect (NewAudioContext (nextId a))
                       (a\<lparr>playbackContextRef := Some (nextId a), nextId := Suc (nextId a)\<rparr>)
                else a);
          a2 = a1\<lparr>audioQueueRef := audioQueueRef a1 @ [audioData]\<rparr>
      in if isPlayingRef a2 then a2
         else playbackLoop (a2\<lparr>isPlayingRef := True\<rparr>))"


subsection \<open>The message handler\<close>

text \<open>
  What \<^verbatim>\<open>JSON.parse(event.data)\<close> gives, by the \<^verbatim>\<open>type\<close> of the message, with the one
  field the handler reads (absent: \<open>None\<close>). \<open>Unparseable\<close> is the data on which
  \<^verbatim>\<open>JSON.parse\<close> or the read of \<^verbatim>\<open>data.type\<close> throws.
\<close>

datatype Inbound =
    Unparseable
  | ConversationInitiationMetadata
  | UserTranscript "jsstring option"
  | AgentResponse "jsstring option"
  | Audio "jsstring option"
  | AudioEnd
  | Interruption
  | Ping
  | ErrorMessage
  | UnknownType

definition appendMessage :: "TranscriptMessage \<Rightarrow> Agent \<Rightarrow> Agent" where
  "appendMessage newMessage a = a\<lparr>messages := messages a @ [newMessage]\<rparr>"

text \<open>
  \<open>now\<close> is the reading of \<^verbatim>\<open>Date.now()\<close> when the handler runs, \<open>e\<close> the byte order of
  the platform. An exception of \<open>base64ToFloat32\<close> is caught and logged.
\<close>

definition handleWebSocketMessage :: "endianness \<Rightarrow> nat \<Rightarrow> Inbound \<Rightarrow> Agent \<Rightarrow> Agent" where
  "handleWebSocketMessage e now data a =
     (case data of
        Unparseable \<Rightarrow> a
      | ConversationInitiationMetadata \<Rightarrow> a\<lparr>status := listening\<rparr>
      | UserTranscript transcript \<Rightarrow>
          (if truthy transcript
           then appendMessage
                  \<lparr>msg_id = js ''user-'' @ toString now, role = user,
                   msg_text = stringOf transcript\<rparr> a
           else a)
      | AgentResponse txt \<Rightarrow>
          (if truthy txt
           then appendMessage
                  \<lparr>msg_id = js ''assistant-'' @ toString now, role = assistant,
                   msg_text = stringOf txt\<rparr> a
           else a)\<lparr>status := speaking\<rparr>
      | Audio chunk \<Rightarrow>
          (if truthy chunk
           then (case base64ToFloat32 e (stringOf chunk) of
                   Inl err \<Rightarrow> a
                 | Inr audioData \<Rightarrow> playAudioChunk audioData a)
           else a)
      | AudioEnd \<Rightarrow> a\<lparr>status := listening\<rparr>
      | Interruption \<Rightarrow> a\<lparr>audioQueueRef := [], status := listening\<rparr>
      | Ping \<Rightarrow>
          (if wsIsOpen a
           then (case wsRef a of None \<Rightarrow> a | Some i \<Rightarrow> effect (WsSend i Pong) a)
           else a)
      | ErrorMessage \<Rightarrow> a
      | UnknownType \<Rightarrow> a)"

subsection \<open>start\<close>

record Env =
  NEXT_PUBLIC_ELEVENLABS_API_KEY :: "jsstring option"
  NEXT_PUBLIC_ELEVENLABS_AGENT_ID :: "jsstring option"

definition ELEVENLABS_REALTIME_WS_URL :: jsstring where
  "ELEVENLABS_REALTIME_WS_URL = js ''wss://api.elevenlabs.io/v1/convai/conversation''"

text \<open>
  What \<open>start\<close> can throw, as its caller sees it: an instance of \<^verbatim>\<open>Error\<close> with its
  message (the \<^verbatim>\<open>Error\<close> that \<open>start\<close> makes itself, and the exceptions of the platform,
  which are instances of \<^verbatim>\<open>Error\<close> too), or a value that is no instance of \<^verbatim>\<open>Error\<close>.
\<close>

datatype Thrown =
    Error jsstring
  | NotAnError

text \<open>
  \<open>start\<close>, from the call to the \<^verbatim>\<open>await\<close> of \<^verbatim>\<open>getUserMedia\<close>: the exception thrown, if
  any, and the state left behind.
\<close>

definition start :: "Env \<Rightarrow> Agent \<Rightarrow> Thrown option \<times> Agent" where
  "start env a =
     (if \<not> truthy (NEXT_PUBLIC_ELEVENLABS_API_KEY env) \<or>
         \<not> truthy (NEXT_PUBLIC_ELEVENLABS_AGENT_ID env)
      then (Some (Error (js ''ElevenLabs configuration missing'')), a)
      else (None, effect GetUserMedia (a\<lparr>status := connecting, messages := []\<rparr>)))"

text \<open>
  The rest of \<open>start\<close> when the microphone is granted (\<open>stream\<close> is the media stream):
  the audio context and the socket are created, the socket still connecting.
\<close>

definition start_granted :: "Env \<Rightarrow> nat \<Rightarrow> Agent \<Rightarrow> Thrown option \<times> Agent" where
  "start_granted env stream a =
     (let wsUrl = ELEVENLABS_REALTIME_WS_URL @ js ''?agent_id='' @
                    stringOf (NEXT_PUBLIC_ELEVENLABS_AGENT_ID env);
          ctx = nextId a;
          ws = length (sockets a)
      in (None,
          effect (NewWebSocket ws wsUrl)
            (effect (NewAudioContext ctx)
               (a\<lparr>mediaStreamRef := Some stream, audioContextRef := Some ctx,
                  nextId := Suc ctx, sockets := sockets a @ [CONNECTING],
                  wsRef := Some ws\<rparr>))))"

text \<open>The rest of \<open>start\<close> when \<^verbatim>\<open>getUserMedia\<close> rejects with \<open>err\<close>: the \<^verbatim>\<open>catch\<close> branch.\<close>

definition start_denied :: "Thrown \<Rightarrow> Agent \<Rightarrow> Thrown option \<times> Agent" where
  "start_denied err a = (Some err, a\<lparr>status := disconnected\<rparr>)"

subsection \<open>The handlers of the socket and of the script processor\<close>

text \<open>
  The events of socket \<open>ws\<close>; the platform has set its ready state before the handler
  runs. In \<open>ws_onopen\<close>, \<^verbatim>\<open>audioContextRef.current!\<close> is null after a \<open>stop\<close>, and the call
  on it throws.
\<close>

definition ws_onopen :: "nat \<Rightarrow> Agent \<Rightarrow> Agent" where
  "ws_onopen ws a =
     (let a1 = effect (WsSend ws ConversationInitiationClientData)
                 (a\<lparr>sockets := (sockets a)[ws := OPEN]\<rparr>);
          a2 = a1\<lparr>status := connected\<rparr>
      in case audioContextRef a2 of
           None \<Rightarrow> a2
         | Some ctx \<Rightarrow>
             effect (CreateScriptProcessor (nextId a2))
               (a2\<lparr>processorRef := Some (nextId a2), nextId := Suc (nextId a2)\<rparr>))"

definition ws_onerror :: "nat \<Rightarrow> Agent \<Rightarrow> Agent" where
  "ws_onerror ws a = a\<lparr>status := disconnected\<rparr>"


text \<open>\<^verbatim>\<open>processor.onaudioprocess\<close> on one block of microphone samples.\<close>

definition onaudioprocess :: "endianness \<Rightarrow> Float32Array \<Rightarrow> Agent \<Rightarrow> Agent" where
  "onaudioprocess e inputData a =
     (if \<not> wsIsOpen a then a
      else (case int16ToBase64 e (float32ToInt16 inputData) of
              Inl err \<Rightarrow> a
            | Inr base64Audio \<Rightarrow>
                (case wsRef a of
                   None \<Rightarrow> a
                 | Some i \<Rightarrow> effect (WsSend i (AudioOut base64Audio)) a)))"

subsection \<open>stop and sendUserText\<close>



definition sendUserText :: "nat \<Rightarrow> jsstring \<Rightarrow> Agent \<Rightarrow> Agent" where
  "sendUserText now txt a =
     (if \<not> wsIsOpen a then a
      else (case wsRef a of
              None \<Rightarrow> a
            | Some i \<Rightarrow>
                appendMessage
                  \<lparr>msg_id = js ''user-'' @ toString now, role = user, msg_text = txt\<rparr>
                  (effect (WsSend i (UserMessage txt)) a)))"

section \<open>The component (EmergencyCoach)\<close>

text \<open>
  The state of the component next to the hook's: the set behind \<open>processedCallsRef\<close>, the
  \<open>error\<close> cell, and the calls made to the telephony collaborator
  (\<open>callEmergencyContact\<close>), each with the identifier of the entry that caused it and the
  summary passed.
\<close>

record Coach =
  agent :: Agent
  processedCallsRef :: "jsstring set"
  error :: "jsstring option"
  telephony :: "(jsstring \<times> jsstring) list"

definition initialCoach :: Coach where
  "initialCoach =
     \<lparr>agent = initialAgent, processedCallsRef = {}, error = None, telephony = []\<rparr>"

text \<open>The \<^verbatim>\<open>useMemo\<close> that parses the transcript.\<close>

definition parsedMessages :: "TranscriptMessage list \<Rightarrow> (TranscriptMessage \<times> ParsedMessage) list" where
  "parsedMessages msgs =
     map (\<lambda>msg. (msg,
                 if role msg = assistant then parseAssistantMessage (msg_text msg)
                 else \<lparr>parsed_text = msg_text msg, resources = [], triggerCall = False\<rparr>))
       msgs"

text \<open>The body of the \<^verbatim>\<open>forEach\<close> in the effect that handles call triggers.\<close>

definition triggerStep :: "TranscriptMessage \<times> ParsedMessage \<Rightarrow> Coach \<Rightarrow> Coach" where
  "triggerStep p c =
     (case p of (original, parsed) \<Rightarrow>
        if triggerCall parsed \<and> msg_id original \<notin> processedCallsRef c
        then c\<lparr>processedCallsRef := insert (msg_id original) (processedCallsRef c),
               telephony := telephony c @ [(msg_id original, parsed_text parsed)]\<rparr>
        else c)"

text \<open>One run of the effect, over the transcript as it stands.\<close>

definition callTriggerEffect :: "Coach \<Rightarrow> Coach" where
  "callTriggerEffect c = fold triggerStep (parsedMessages (messages (agent c))) c"

text \<open>\<^verbatim>\<open>err instanceof Error ? err.message : "Failed to start"\<close>.\<close>

definition message :: "Thrown \<Rightarrow> jsstring" where
  "message err = (case err of Error m \<Rightarrow> m | NotAnError \<Rightarrow> js ''Failed to start'')"

text \<open>
  \<open>handleStart\<close>, up to the \<^verbatim>\<open>await\<close> inside \<open>start\<close>: an exception of \<open>start\<close> is caught
  and its message shown.
\<close>

definition handleStart :: "Env \<Rightarrow> Coach \<Rightarrow> Coach" where
  "handleStart env c =
     (case start env (agent c) of
        (None, a) \<Rightarrow> c\<lparr>agent := a, error := None\<rparr>
      | (Some err, a) \<Rightarrow> c\<lparr>agent := a, error := Some (message err)\<rparr>)"

text \<open>
  The effect runs each time the transcript it depends on has changed: \<open>observe msgs\<close> is
  one such run, on the transcript \<open>msgs\<close>. \<open>callsFor i\<close> counts the calls made to the
  telephony collaborator for the entry identifier \<open>i\<close>.
\<close>

definition observe :: "TranscriptMessage list \<Rightarrow> Coach \<Rightarrow> Coach" where
  "observe msgs c = callTriggerEffect (c\<lparr>agent := (agent c)\<lparr>messages := msgs\<rparr>\<rparr>)"

definition callsFor :: "jsstring \<Rightarrow> Coach \<Rightarrow> nat" where
  "callsFor i c = length (filter (\<lambda>call. fst call = i) (telephony c))"

section \<open>Auxiliary notions for the properties\<close>



text \<open>A configuration with both variables set.\<close>

definition exampleEnv :: Env where
  "exampleEnv =
     \<lparr>NEXT_PUBLIC_ELEVENLABS_API_KEY = Some (js ''key''),
      NEXT_PUBLIC_ELEVENLABS_AGENT_ID = Some (js ''agent'')\<rparr>"


text \<open>
  Two assistant messages handled at the same reading of the clock, both with the trigger
  marker, and the component over the resulting transcript.
\<close>

definition sameMillisecond :: Agent where
  "sameMillisecond =
     handleWebSocketMessage LittleEndian 1730000000000
       (AgentResponse (Some (js ''[[CALL_EMERGENCY_CONTACT]]Second emergency'')))
       (handleWebSocketMessage LittleEndian 1730000000000
          (AgentResponse (Some (js ''[[CALL_EMERGENCY_CONTACT]]First emergency'')))
          initialAgent)"

text \<open>
  The encoding without its padding, and the padding: \<open>base64Encode bs\<close> is the one
  followed by the other.
\<close>

fun base64Body :: "nat list \<Rightarrow> jsstring" where
  "base64Body [] = []"
| "base64Body [a] = [base64Char (a div 4), base64Char ((a mod 4) * 16)]"
| "base64Body [a, b] =
     [base64Char (a div 4), base64Char ((a mod 4) * 16 + b div 16),
      base64Char ((b mod 16) * 4)]"
| "base64Body (a # b # c # bs) =
     [base64Char (a div 4), base64Char ((a mod 4) * 16 + b div 16),
      base64Char ((b mod 16) * 4 + c div 64), base64Char (c mod 64)] @ base64Body bs"

definition padding :: "nat list \<Rightarrow> jsstring" where
  "padding bs =
     (if length bs mod 3 = 1 then [61, 61] else if length bs mod 3 = 2 then [61] else [])"

subsection \<open>Runs of the playback scheduler\<close>





text \<open>
  The segments whose source was started, and those whose source has ended, in the order
  of the effects.
\<close>

fun started :: "Effect list \<Rightarrow> Float32Array list" where
  "started [] = []"
| "started (SourceStart s # es) = s # started es"
| "started (x # es) = started es"

fun finished :: "Effect list \<Rightarrow> Float32Array list" where
  "finished [] = []"
| "finished (SourceEnded s # es) = s # finished es"
| "finished (x # es) = finished es"

text \<open>
  Reading the effects as a timeline from a moment when \<open>cur\<close> is playing: the segment
  that plays at the end, and whether every start came when nothing was playing and every
  end was the end of what was playing.
\<close>

fun nowPlaying :: "Float32Array option \<Rightarrow> Effect list \<Rightarrow> Float32Array option" where
  "nowPlaying cur [] = cur"
| "nowPlaying cur (SourceStart s # es) = nowPlaying (Some s) es"
| "nowPlaying cur (SourceEnded s # es) = nowPlaying None es"
| "nowPlaying cur (x # es) = nowPlaying cur es"

fun noOverlap :: "Float32Array option \<Rightarrow> Effect list \<Rightarrow> bool" where
  "noOverlap cur [] = True"
| "noOverlap cur (SourceStart s # es) = (cur = None \<and> noOverlap (Some s) es)"
| "noOverlap cur (SourceEnded s # es) = (cur = Some s \<and> noOverlap None es)"
| "noOverlap cur (x # es) = noOverlap cur es"


subsection \<open>Canonical encodings\<close>

text \<open>
  A string in canonical base64 (RFC 4648): groups of four characters of the alphabet, the
  last group possibly ending in one or two \<open>=\<close>, and then with the bits that no byte
  uses equal to zero. \<open>canonicalBytes\<close> are the bytes such a string stands for.
\<close>

fun canonicalBase64 :: "jsstring \<Rightarrow> bool" where
  "canonicalBase64 [] = True"
| "canonicalBase64 (p # q # r # s # rest) =
     (isBase64Char p \<and> isBase64Char q \<and>
      (if r = 61 then s = 61 \<and> rest = [] \<and> sextetOf q mod 16 = 0
       else isBase64Char r \<and>
            (if s = 61 then rest = [] \<and> sextetOf r mod 4 = 0
             else isBase64Char s \<and> canonicalBase64 rest)))"
| "canonicalBase64 _ = False"

fun canonicalBytes :: "jsstring \<Rightarrow> nat list" where
  "canonicalBytes (p # q # r # s # rest) =
     (if r = 61 then [sextetOf p * 4 + sextetOf q div 16]
      else if s = 61
      then [sextetOf p * 4 + sextetOf q div 16, (sextetOf q mod 16) * 16 + sextetOf r div 4]
      else [sextetOf p * 4 + sextetOf q div 16, (sextetOf q mod 16) * 16 + sextetOf r div 4,
            (sextetOf r mod 4) * 64 + sextetOf s] @ canonicalBytes rest)"
| "canonicalBytes _ = []"

section \<open>Properties of the directive parser\<close>

lemma not_includes_not_startsWith: "\<not> includes_str s pat \<Longrightarrow> \<not> startsWith s pat"
  by (cases s) (auto elim: startsWith.elims)

lemma matchLinks_None: "\<not> includes_str s LINKS \<Longrightarrow> matchLinks s = None"
  by (induction s) auto

text \<open>
  C2. The text of the specification's example parses to the trigger flag set, the display
  text \<open>Patient unconscious\<close> and the two resources \<open>CPR Guide\<close> / \<open>https://x\<close> and
  \<open>Poison Control\<close> / \<open>1-800-222-1222\<close>; and every input in which neither marker occurs
  parses to the trigger flag clear, no resources and the input itself as display text.
\<close>

theorem parseAssistantMessage_example_and_unmarked:
  "parseAssistantMessage
     (js ''[[CALL_EMERGENCY_CONTACT]]Patient unconscious[[LINKS]]CPR Guide:https://x;Poison Control:1-800-222-1222'')
   = \<lparr>parsed_text = js ''Patient unconscious'',
      resources = [\<lparr>label = js ''CPR Guide'', description = js ''https://x''\<rparr>,
                   \<lparr>label = js ''Poison Control'', description = js ''1-800-222-1222''\<rparr>],
      triggerCall = True\<rparr>
   \<and> (\<forall>rawText.
         \<not> includes_str rawText CALL_EMERGENCY_CONTACT \<and> \<not> includes_str rawText LINKS \<longrightarrow>
         parseAssistantMessage rawText
           = \<lparr>parsed_text = rawText, resources = [], triggerCall = False\<rparr>)"
proof (intro conjI allI impI)
  show "parseAssistantMessage
     (js ''[[CALL_EMERGENCY_CONTACT]]Patient unconscious[[LINKS]]CPR Guide:https://x;Poison Control:1-800-222-1222'')
   = \<lparr>parsed_text = js ''Patient unconscious'',
      resources = [\<lparr>label = js ''CPR Guide'', description = js ''https://x''\<rparr>,
                   \<lparr>label = js ''Poison Control'', description = js ''1-800-222-1222''\<rparr>],
      triggerCall = True\<rparr>"
    by (simp add: parseAssistantMessage_def js_def CALL_EMERGENCY_CONTACT_def LINKS_def
        trim_def isWhiteSpace_def parseResource_def orElse_def)
next
  fix rawText
  assume "\<not> includes_str rawText CALL_EMERGENCY_CONTACT \<and> \<not> includes_str rawText LINKS"
  then show "parseAssistantMessage rawText
           = \<lparr>parsed_text = rawText, resources = [], triggerCall = False\<rparr>"
    by (simp add: parseAssistantMessage_def not_includes_not_startsWith matchLinks_None)
qed

theorem parseAssistantMessage_unmarked_witness:
  "\<not> includes_str (js ''Stay calm: help is coming'') CALL_EMERGENCY_CONTACT
   \<and> \<not> includes_str (js ''Stay calm: help is coming'') LINKS
   \<and> parseAssistantMessage (js ''Stay calm: help is coming'')
       = \<lparr>parsed_text = js ''Stay calm: help is coming'', resources = [], triggerCall = False\<rparr>"
proof -
  have h: "\<not> includes_str (js ''Stay calm: help is coming'') CALL_EMERGENCY_CONTACT
      \<and> \<not> includes_str (js ''Stay calm: help is coming'') LINKS"
    by (simp add: js_def CALL_EMERGENCY_CONTACT_def LINKS_def)
  from parseAssistantMessage_example_and_unmarked
  have "parseAssistantMessage (js ''Stay calm: help is coming'')
       = \<lparr>parsed_text = js ''Stay calm: help is coming'', resources = [], triggerCall = False\<rparr>"
    using h by blast
  with h show ?thesis by simp
qed

section \<open>Properties of the call trigger\<close>

lemma triggerStep_ids:
  "distinct (map fst (telephony c)) \<and> set (map fst (telephony c)) = processedCallsRef c \<Longrightarrow>
   distinct (map fst (telephony (triggerStep p c))) \<and>
   set (map fst (telephony (triggerStep p c))) = processedCallsRef (triggerStep p c)"
  by (cases p) (auto simp: triggerStep_def)

lemma fold_triggerStep_ids:
  "distinct (map fst (telephony c)) \<and> set (map fst (telephony c)) = processedCallsRef c \<Longrightarrow>
   distinct (map fst (telephony (fold triggerStep ps c))) \<and>
   set (map fst (telephony (fold triggerStep ps c))) = processedCallsRef (fold triggerStep ps c)"
proof (induction ps arbitrary: c)
  case Nil
  then show ?case by simp
next
  case (Cons p ps)
  from Cons.IH [OF triggerStep_ids [OF Cons.prems]] show ?case by simp
qed

lemma triggerStep_mono: "processedCallsRef c \<subseteq> processedCallsRef (triggerStep p c)"
  by (cases p) (auto simp: triggerStep_def)

lemma fold_triggerStep_mono: "processedCallsRef c \<subseteq> processedCallsRef (fold triggerStep ps c)"
proof (induction ps arbitrary: c)
  case Nil
  then show ?case by simp
next
  case (Cons p ps)
  have "processedCallsRef c \<subseteq> processedCallsRef (triggerStep p c)" by (rule triggerStep_mono)
  also have "\<dots> \<subseteq> processedCallsRef (fold triggerStep ps (triggerStep p c))" by (rule Cons.IH)
  finally show ?case by simp
qed

lemma triggerStep_processed:
  "triggerCall parsed \<Longrightarrow> msg_id original \<in> processedCallsRef (triggerStep (original, parsed) c)"
  by (simp add: triggerStep_def)

lemma fold_triggerStep_processed:
  "(original, parsed) \<in> set ps \<Longrightarrow> triggerCall parsed \<Longrightarrow>
   msg_id original \<in> processedCallsRef (fold triggerStep ps c)"
proof (induction ps arbitrary: c)
  case Nil
  then show ?case by simp
next
  case (Cons p ps)
  show ?case
  proof (cases "p = (original, parsed)")
    case True
    with Cons.prems(2) have "msg_id original \<in> processedCallsRef (triggerStep p c)"
      by (simp add: triggerStep_processed)
    then show ?thesis using fold_triggerStep_mono [of "triggerStep p c" ps] by auto
  next
    case False
    with Cons.prems have "(original, parsed) \<in> set ps" by simp
    from Cons.IH [OF this Cons.prems(2)] show ?thesis by simp
  qed
qed

lemma parsedMessages_trigger:
  "m \<in> set msgs \<Longrightarrow> role m = assistant \<Longrightarrow>
   (m, parseAssistantMessage (msg_text m)) \<in> set (parsedMessages msgs)"
  by (auto simp: parsedMessages_def image_iff intro!: bexI [of _ m])

lemma observe_ids:
  "distinct (map fst (telephony c)) \<and> set (map fst (telephony c)) = processedCallsRef c \<Longrightarrow>
   distinct (map fst (telephony (observe msgs c))) \<and>
   set (map fst (telephony (observe msgs c))) = processedCallsRef (observe msgs c)"
  unfolding observe_def callTriggerEffect_def by (rule fold_triggerStep_ids) simp

lemma observe_mono: "processedCallsRef c \<subseteq> processedCallsRef (observe msgs c)"
  unfolding observe_def callTriggerEffect_def
  using fold_triggerStep_mono [of "c\<lparr>agent := (agent c)\<lparr>messages := msgs\<rparr>\<rparr>"] by simp

lemma observe_processed:
  "m \<in> set msgs \<Longrightarrow> role m = assistant \<Longrightarrow> triggerCall (parseAssistantMessage (msg_text m)) \<Longrightarrow>
   msg_id m \<in> processedCallsRef (observe msgs c)"
  unfolding observe_def callTriggerEffect_def
  by (rule fold_triggerStep_processed [OF parsedMessages_trigger]) simp_all

lemma fold_observe_ids:
  "distinct (map fst (telephony c)) \<and> set (map fst (telephony c)) = processedCallsRef c \<Longrightarrow>
   distinct (map fst (telephony (fold observe runs c))) \<and>
   set (map fst (telephony (fold observe runs c))) = processedCallsRef (fold observe runs c)"
proof (induction runs arbitrary: c)
  case Nil
  then show ?case by simp
next
  case (Cons r runs)
  from Cons.IH [OF observe_ids [OF Cons.prems]] show ?case by simp
qed

lemma fold_observe_mono: "processedCallsRef c \<subseteq> processedCallsRef (fold observe runs c)"
proof (induction runs arbitrary: c)
  case Nil
  then show ?case by simp
next
  case (Cons r runs)
  have "processedCallsRef c \<subseteq> processedCallsRef (observe r c)" by (rule observe_mono)
  also have "\<dots> \<subseteq> processedCallsRef (fold observe runs (observe r c))" by (rule Cons.IH)
  finally show ?case by simp
qed

lemma fold_observe_processed:
  "msgs \<in> set runs \<Longrightarrow> m \<in> set msgs \<Longrightarrow> role m = assistant \<Longrightarrow>
   triggerCall (parseAssistantMessage (msg_text m)) \<Longrightarrow>
   msg_id m \<in> processedCallsRef (fold observe runs c)"
proof (induction runs arbitrary: c)
  case Nil
  then show ?case by simp
next
  case (Cons r runs)
  show ?case
  proof (cases "r = msgs")
    case True
    with Cons.prems have "msg_id m \<in> processedCallsRef (observe r c)"
      by (simp add: observe_processed)
    then show ?thesis using fold_observe_mono [of "observe r c" runs] by auto
  next
    case False
    with Cons.prems have "msgs \<in> set runs" by simp
    from Cons.IH [OF this Cons.prems(2-4)] show ?thesis by simp
  qed
qed

lemma distinct_count: "distinct xs \<Longrightarrow> length (filter (\<lambda>j. j = i) xs) = (if i \<in> set xs then 1 else 0)"
  by (induction xs) auto

lemma callsFor_fst: "callsFor i c = length (filter (\<lambda>j. j = i) (map fst (telephony c)))"
  by (simp add: callsFor_def filter_map o_def)


text \<open>
  C1. Whatever transcripts the trigger-handling effect runs on over the session, and
  however often an entry is among them, an assistant entry whose directive has the trigger
  flag set has caused exactly one call to the telephony collaborator for its identifier:
  the identifier is looked up in the processed set and put into it before the call.
\<close>

theorem trigger_exactly_once:
  assumes "msgs \<in> set runs" and "m \<in> set msgs" and "role m = assistant"
    and "triggerCall (parseAssistantMessage (msg_text m))"
  shows "callsFor (msg_id m) (fold observe runs initialCoach) = 1"
proof -
  have "distinct (map fst (telephony initialCoach)) \<and>
        set (map fst (telephony initialCoach)) = processedCallsRef initialCoach"
    by (simp add: initialCoach_def)
  from fold_observe_ids [OF this, of runs]
  have d: "distinct (map fst (telephony (fold observe runs initialCoach)))"
    and s: "set (map fst (telephony (fold observe runs initialCoach)))
            = processedCallsRef (fold observe runs initialCoach)"
    by blast+
  from fold_observe_processed [OF assms, of initialCoach] s
  have "msg_id m \<in> set (map fst (telephony (fold observe runs initialCoach)))"
    by blast
  with distinct_count [OF d, of "msg_id m"] show ?thesis
    unfolding callsFor_fst by simp
qed

theorem trigger_exactly_once_witness:
  "[\<lparr>msg_id = js ''assistant-1'', role = assistant, msg_text = js ''[[CALL_EMERGENCY_CONTACT]]Help''\<rparr>]
     \<in> set [[\<lparr>msg_id = js ''assistant-1'', role = assistant, msg_text = js ''[[CALL_EMERGENCY_CONTACT]]Help''\<rparr>],
              [\<lparr>msg_id = js ''assistant-1'', role = assistant, msg_text = js ''[[CALL_EMERGENCY_CONTACT]]Help''\<rparr>]]
   \<and> triggerCall (parseAssistantMessage (js ''[[CALL_EMERGENCY_CONTACT]]Help''))
   \<and> callsFor (js ''assistant-1'')
        (fold observe
           [[\<lparr>msg_id = js ''assistant-1'', role = assistant, msg_text = js ''[[CALL_EMERGENCY_CONTACT]]Help''\<rparr>],
            [\<lparr>msg_id = js ''assistant-1'', role = assistant, msg_text = js ''[[CALL_EMERGENCY_CONTACT]]Help''\<rparr>]]
           initialCoach) = 1"
proof -
  have t: "triggerCall (parseAssistantMessage (js ''[[CALL_EMERGENCY_CONTACT]]Help''))"
    by (simp add: parseAssistantMessage_def js_def CALL_EMERGENCY_CONTACT_def LINKS_def
        trim_def isWhiteSpace_def)
  from trigger_exactly_once [of
      "[\<lparr>msg_id = js ''assistant-1'', role = assistant, msg_text = js ''[[CALL_EMERGENCY_CONTACT]]Help''\<rparr>]"
      "[[\<lparr>msg_id = js ''assistant-1'', role = assistant, msg_text = js ''[[CALL_EMERGENCY_CONTACT]]Help''\<rparr>],
        [\<lparr>msg_id = js ''assistant-1'', role = assistant, msg_text = js ''[[CALL_EMERGENCY_CONTACT]]Help''\<rparr>]]"
      "\<lparr>msg_id = js ''assistant-1'', role = assistant, msg_text = js ''[[CALL_EMERGENCY_CONTACT]]Help''\<rparr>"] t
  show ?thesis by simp
qed

section \<open>Properties of the session\<close>

lemma effect_simps [simp]:
  "status (effect x a) = status a"
  "messages (effect x a) = messages a"
  "wsRef (effect x a) = wsRef a"
  "mediaStreamRef (effect x a) = mediaStreamRef a"
  "audioContextRef (effect x a) = audioContextRef a"
  "playbackContextRef (effect x a) = playbackContextRef a"
  "audioQueueRef (effect x a) = audioQueueRef a"
  "isPlayingRef (effect x a) = isPlayingRef a"
  "processorRef (effect x a) = processorRef a"
  "sockets (effect x a) = sockets a"
  "sources (effect x a) = sources a"
  "effects (effect x a) = effects a @ [x]"
  "nextId (effect x a) = nextId a"
  by (simp_all add: effect_def)

text \<open>
  C6. When the API key or the agent identifier is missing, \<open>start\<close> throws the
  configuration error before it has done anything: the state is the one it was called in
  (so a disconnected session stays disconnected, the status is never \<open>connecting\<close>, no
  socket exists and no call on the platform has been made), and \<open>handleStart\<close>, its
  caller, receives the error and shows its message.
\<close>

theorem start_configuration_missing:
  assumes "\<not> truthy (NEXT_PUBLIC_ELEVENLABS_API_KEY env) \<or>
           \<not> truthy (NEXT_PUBLIC_ELEVENLABS_AGENT_ID env)"
  shows "start env a = (Some (Error (js ''ElevenLabs configuration missing'')), a)
     \<and> handleStart env c = c\<lparr>error := Some (js ''ElevenLabs configuration missing'')\<rparr>"
  using assms by (auto simp: start_def handleStart_def message_def)

theorem start_configuration_missing_witness:
  "\<not> truthy (NEXT_PUBLIC_ELEVENLABS_AGENT_ID
        \<lparr>NEXT_PUBLIC_ELEVENLABS_API_KEY = Some (js ''key''),
         NEXT_PUBLIC_ELEVENLABS_AGENT_ID = None\<rparr>)
   \<and> start \<lparr>NEXT_PUBLIC_ELEVENLABS_API_KEY = Some (js ''key''),
             NEXT_PUBLIC_ELEVENLABS_AGENT_ID = None\<rparr> initialAgent
       = (Some (Error (js ''ElevenLabs configuration missing'')), initialAgent)
   \<and> status initialAgent = disconnected"
proof -
  have h: "\<not> truthy (NEXT_PUBLIC_ELEVENLABS_AGENT_ID
              \<lparr>NEXT_PUBLIC_ELEVENLABS_API_KEY = Some (js ''key''),
               NEXT_PUBLIC_ELEVENLABS_AGENT_ID = None\<rparr>)"
    by (simp add: truthy_def)
  then have "\<not> truthy (NEXT_PUBLIC_ELEVENLABS_API_KEY
              \<lparr>NEXT_PUBLIC_ELEVENLABS_API_KEY = Some (js ''key''),
               NEXT_PUBLIC_ELEVENLABS_AGENT_ID = None\<rparr>)
         \<or> \<not> truthy (NEXT_PUBLIC_ELEVENLABS_AGENT_ID
              \<lparr>NEXT_PUBLIC_ELEVENLABS_API_KEY = Some (js ''key''),
               NEXT_PUBLIC_ELEVENLABS_AGENT_ID = None\<rparr>)"
    by (rule disjI2)
  from start_configuration_missing [OF this, of initialAgent initialCoach]
  have e: "start \<lparr>NEXT_PUBLIC_ELEVENLABS_API_KEY = Some (js ''key''),
             NEXT_PUBLIC_ELEVENLABS_AGENT_ID = None\<rparr> initialAgent
       = (Some (Error (js ''ElevenLabs configuration missing'')), initialAgent)"
    by (rule conjunct1)
  have "status initialAgent = disconnected"
    by (simp add: initialAgent_def)
  with h e show ?thesis by blast
qed

text \<open>
  C7. In every state of the session, and so in \<open>listening\<close> and in \<open>speaking\<close>, the
  handler of an interruption message leaves the pending playback queue empty and the
  status \<open>listening\<close>; the sources that are playing, the flag of the playback loop and
  the effects made are as before, so a segment in progress is not cut.
\<close>

theorem interruption_flushes_queue:
  "audioQueueRef (handleWebSocketMessage e now Interruption a) = []
   \<and> status (handleWebSocketMessage e now Interruption a) = listening
   \<and> sources (handleWebSocketMessage e now Interruption a) = sources a
   \<and> isPlayingRef (handleWebSocketMessage e now Interruption a) = isPlayingRef a
   \<and> effects (handleWebSocketMessage e now Interruption a) = effects a"
  by (simp add: handleWebSocketMessage_def)








text \<open>
  C9 fails on the code. The identifier of an entry is its role and the reading of the
  clock in milliseconds, so two assistant messages handled within one millisecond get one
  identifier; and the processed set then takes the second entry for the first, so that
  of two entries that each ask for a call only the first causes one.
\<close>

theorem identifier_collision:
  "map msg_id (messages sameMillisecond)
     = [js ''assistant-1730000000000'', js ''assistant-1730000000000'']
   \<and> map msg_text (messages sameMillisecond)
     = [js ''[[CALL_EMERGENCY_CONTACT]]First emergency'',
        js ''[[CALL_EMERGENCY_CONTACT]]Second emergency'']
   \<and> telephony (observe (messages sameMillisecond) initialCoach)
     = [(js ''assistant-1730000000000'', js ''First emergency'')]"
proof -
  have m: "messages sameMillisecond
     = [\<lparr>msg_id = js ''assistant-1730000000000'', role = assistant,
         msg_text = js ''[[CALL_EMERGENCY_CONTACT]]First emergency''\<rparr>,
        \<lparr>msg_id = js ''assistant-1730000000000'', role = assistant,
         msg_text = js ''[[CALL_EMERGENCY_CONTACT]]Second emergency''\<rparr>]"
    by (simp add: sameMillisecond_def handleWebSocketMessage_def truthy_def stringOf_def
        appendMessage_def initialAgent_def js_def)
  have p1: "parseAssistantMessage (js ''[[CALL_EMERGENCY_CONTACT]]First emergency'')
      = \<lparr>parsed_text = js ''First emergency'', resources = [], triggerCall = True\<rparr>"
    by (simp add: parseAssistantMessage_def js_def CALL_EMERGENCY_CONTACT_def LINKS_def
        trim_def isWhiteSpace_def)
  have p2: "parseAssistantMessage (js ''[[CALL_EMERGENCY_CONTACT]]Second emergency'')
      = \<lparr>parsed_text = js ''Second emergency'', resources = [], triggerCall = True\<rparr>"
    by (simp add: parseAssistantMessage_def js_def CALL_EMERGENCY_CONTACT_def LINKS_def
        trim_def isWhiteSpace_def)
  have "telephony (observe (messages sameMillisecond) initialCoach)
     = [(js ''assistant-1730000000000'', js ''First emergency'')]"
    unfolding m
    by (simp add: observe_def callTriggerEffect_def parsedMessages_def p1 p2 triggerStep_def
        initialCoach_def)
  with m show ?thesis by simp
qed

text \<open>
  C10. A \<open>start\<close> that passes the configuration check empties the transcript before the
  microphone is asked for, with no socket created yet, and the rest of \<open>start\<close> leaves
  it empty whether the microphone is granted or not. The processed set belongs to the
  component; \<open>handleStart\<close> does not touch it, nor the calls made so far.
\<close>

theorem start_resets_transcript:
  assumes "truthy (NEXT_PUBLIC_ELEVENLABS_API_KEY env)"
    and "truthy (NEXT_PUBLIC_ELEVENLABS_AGENT_ID env)"
  shows "fst (start env a) = None
     \<and> messages (snd (start env a)) = []
     \<and> status (snd (start env a)) = connecting
     \<and> sockets (snd (start env a)) = sockets a
     \<and> wsRef (snd (start env a)) = wsRef a
     \<and> effects (snd (start env a)) = effects a @ [GetUserMedia]
     \<and> messages (snd (start_granted env stream (snd (start env a)))) = []
     \<and> messages (snd (start_denied err (snd (start env a)))) = []
     \<and> messages (agent (handleStart env c)) = []
     \<and> processedCallsRef (handleStart env c) = processedCallsRef c
     \<and> telephony (handleStart env c) = telephony c"
  using assms
  by (simp add: start_def start_granted_def start_denied_def handleStart_def Let_def)

theorem start_resets_transcript_witness:
  "truthy (NEXT_PUBLIC_ELEVENLABS_API_KEY exampleEnv)
   \<and> truthy (NEXT_PUBLIC_ELEVENLABS_AGENT_ID exampleEnv)
   \<and> messages sameMillisecond \<noteq> []
   \<and> messages (snd (start exampleEnv sameMillisecond)) = []
   \<and> processedCallsRef
       (handleStart exampleEnv (observe (messages sameMillisecond) initialCoach))
     = processedCallsRef (observe (messages sameMillisecond) initialCoach)"
proof -
  have k: "truthy (NEXT_PUBLIC_ELEVENLABS_API_KEY exampleEnv)"
    and i: "truthy (NEXT_PUBLIC_ELEVENLABS_AGENT_ID exampleEnv)"
    by (simp_all add: exampleEnv_def truthy_def js_def)
  have n: "messages sameMillisecond \<noteq> []"
    by (simp add: sameMillisecond_def handleWebSocketMessage_def truthy_def stringOf_def
        appendMessage_def js_def)
  from start_resets_transcript [OF k i, of sameMillisecond 0 NotAnError
      "observe (messages sameMillisecond) initialCoach"] k i n
  show ?thesis by blast
qed

section \<open>Properties of the audio codec\<close>

subsection \<open>Floating point to fixed point and back\<close>

lemma sint_int16: "- 32768 \<le> k \<Longrightarrow> k \<le> 32767 \<Longrightarrow> sint (word_of_int k :: 16 word) = k"
  by (simp add: sint_sbintrunc' signed_take_bit_int_eq_self)

lemma scaleSample_Finite:
  "scaleSample (Finite v) =
     Finite (if max (- 1) (min 1 v) < 0 then max (- 1) (min 1 v) * 32768
             else max (- 1) (min 1 v) * 32767)"
  by (auto simp: scaleSample_def clampSample_def Let_def min_def max_def)

lemma scaleSample_range:
  "\<exists>y. scaleSample (Finite v) = Finite y \<and> - 32768 \<le> y \<and> y \<le> 32767"
  unfolding scaleSample_Finite by (auto simp: max_def min_def)

lemma trunc_bounds:
  assumes "- 32768 \<le> y" "y \<le> 32767"
  shows "- 32768 \<le> trunc y \<and> trunc y \<le> 32767"
proof (cases "y < 0")
  case True
  have "\<lfloor>- y\<rfloor> \<le> 32768" using assms by (simp add: floor_le_iff)
  moreover have "0 \<le> \<lfloor>- y\<rfloor>" using True by simp
  moreover have "trunc y = - \<lfloor>- y\<rfloor>" using True by (simp add: trunc_def)
  ultimately show ?thesis by linarith
next
  case False
  have "\<lfloor>y\<rfloor> \<le> 32767" using assms by (simp add: floor_le_iff)
  moreover have "0 \<le> \<lfloor>y\<rfloor>" using False by simp
  moreover have "trunc y = \<lfloor>y\<rfloor>" using False by (simp add: trunc_def)
  ultimately show ?thesis by linarith
qed

lemma sint_ToInt16:
  assumes "- 32768 \<le> y" "y \<le> 32767"
  shows "sint (ToInt16 (Finite y)) = trunc y"
  using trunc_bounds [OF assms] by (simp add: sint_int16)

lemma trunc_nonneg: "0 \<le> y \<Longrightarrow> real_of_int (trunc y) \<le> y \<and> y < real_of_int (trunc y) + 1"
  by (simp add: trunc_def; linarith)

lemma trunc_neg: "y < 0 \<Longrightarrow> y \<le> real_of_int (trunc y) \<and> real_of_int (trunc y) < y + 1"
  by (simp add: trunc_def; linarith)

lemma sample_above: "1 < v \<Longrightarrow> sint (ToInt16 (scaleSample (Finite v))) = 32767"
  by (simp add: scaleSample_Finite trunc_def)

lemma sample_below: "v < - 1 \<Longrightarrow> sint (ToInt16 (scaleSample (Finite v))) = - 32768"
  by (simp add: scaleSample_Finite trunc_def)

lemma sample_inf:
  "sint (ToInt16 (scaleSample PosInfinity)) = 32767"
  "sint (ToInt16 (scaleSample NegInfinity)) = - 32768"
  "sint (ToInt16 (scaleSample NaN)) = 0"
  by (simp_all add: scaleSample_def clampSample_def trunc_def)

lemma roundtrip_nonneg:
  assumes "0 \<le> v" "v \<le> 1"
  shows "\<bar>real_of_int (sint (ToInt16 (scaleSample (Finite v)))) / 32768 - v\<bar> < 2 / 32768"
proof -
  have s: "scaleSample (Finite v) = Finite (v * 32767)"
    using assms by (simp add: scaleSample_Finite)
  have r: "- 32768 \<le> v * 32767" "v * 32767 \<le> 32767" "0 \<le> v * 32767"
    using assms by simp_all
  from trunc_nonneg [OF r(3)] assms show ?thesis
    unfolding s sint_ToInt16 [OF r(1,2)] by (simp add: abs_less_iff field_simps)
qed

lemma roundtrip_neg:
  assumes "- 1 \<le> v" "v < 0"
  shows "\<bar>real_of_int (sint (ToInt16 (scaleSample (Finite v)))) / 32768 - v\<bar> < 1 / 32768"
proof -
  have s: "scaleSample (Finite v) = Finite (v * 32768)"
    using assms by (simp add: scaleSample_Finite)
  have r: "- 32768 \<le> v * 32768" "v * 32768 \<le> 32767" "v * 32768 < 0"
    using assms by simp_all
  from trunc_neg [OF r(3)] assms show ?thesis
    unfolding s sint_ToInt16 [OF r(1,2)] by (simp add: abs_less_iff field_simps)
qed

lemma roundtrip_list:
  "map int16ToFloat32 (float32ToInt16 [Finite v])
     = [Finite (real_of_int (sint (ToInt16 (scaleSample (Finite v)))) / 32768)]"
  by (simp add: float32ToInt16_def int16ToFloat32_def)

text \<open>
  C3, as the code has it. For a sample \<open>v\<close> in \<open>[-1, 1]\<close> the value that comes back from
  the fixed-point form is less than two quantization steps from \<open>v\<close> (a positive sample
  is scaled by \<^verbatim>\<open>0x7fff\<close> and divided by \<^verbatim>\<open>0x8000\<close>), and less than one step when
  \<open>v \<le> 0\<close>. A sample above 1, and plus infinity, gives \<^verbatim>\<open>0x7fff\<close>; one below \<open>-1\<close>, and
  minus infinity, gives \<^verbatim>\<open>-0x8000\<close>. The number stored is always within the range of
  16 bits, so the stored element is its truncation and nothing wraps around.
\<close>

theorem float_fixed_roundtrip:
  "(- 1 \<le> v \<and> v \<le> 1 \<longrightarrow>
      (\<exists>r. map int16ToFloat32 (float32ToInt16 [Finite v]) = [Finite r]
           \<and> \<bar>r - v\<bar> < 2 / 32768
           \<and> (v \<le> 0 \<longrightarrow> \<bar>r - v\<bar> < 1 / 32768)))
   \<and> (1 < v \<longrightarrow> map sint (float32ToInt16 [Finite v]) = [32767])
   \<and> (v < - 1 \<longrightarrow> map sint (float32ToInt16 [Finite v]) = [- 32768])
   \<and> map sint (float32ToInt16 [PosInfinity, NegInfinity]) = [32767, - 32768]
   \<and> (\<exists>y. scaleSample (Finite v) = Finite y \<and> - 32768 \<le> y \<and> y \<le> 32767
          \<and> map sint (float32ToInt16 [Finite v]) = [trunc y])"
proof (intro conjI impI)
  assume v: "- 1 \<le> v \<and> v \<le> 1"
  let ?r = "real_of_int (sint (ToInt16 (scaleSample (Finite v)))) / 32768"
  have two: "\<bar>?r - v\<bar> < 2 / 32768"
  proof (cases "v < 0")
    case True
    with v roundtrip_neg [of v] show ?thesis by simp
  next
    case False
    with v roundtrip_nonneg [of v] show ?thesis by simp
  qed
  have one: "v \<le> 0 \<longrightarrow> \<bar>?r - v\<bar> < 1 / 32768"
  proof
    assume "v \<le> 0"
    show "\<bar>?r - v\<bar> < 1 / 32768"
    proof (cases "v < 0")
      case True
      with v roundtrip_neg [of v] show ?thesis by simp
    next
      case False
      with \<open>v \<le> 0\<close> have "v = 0" by simp
      then show ?thesis by (simp add: scaleSample_Finite trunc_def)
    qed
  qed
  show "\<exists>r. map int16ToFloat32 (float32ToInt16 [Finite v]) = [Finite r]
           \<and> \<bar>r - v\<bar> < 2 / 32768
           \<and> (v \<le> 0 \<longrightarrow> \<bar>r - v\<bar> < 1 / 32768)"
  proof (rule exI [of _ ?r], intro conjI)
    show "map int16ToFloat32 (float32ToInt16 [Finite v]) = [Finite ?r]"
      by (rule roundtrip_list)
    show "\<bar>?r - v\<bar> < 2 / 32768" by (rule two)
    show "v \<le> 0 \<longrightarrow> \<bar>?r - v\<bar> < 1 / 32768" by (rule one)
  qed
next
  assume "1 < v"
  then show "map sint (float32ToInt16 [Finite v]) = [32767]"
    by (simp add: float32ToInt16_def sample_above)
next
  assume "v < - 1"
  then show "map sint (float32ToInt16 [Finite v]) = [- 32768]"
    by (simp add: float32ToInt16_def sample_below)
next
  show "map sint (float32ToInt16 [PosInfinity, NegInfinity]) = [32767, - 32768]"
    by (simp add: float32ToInt16_def sample_inf)
next
  from scaleSample_range [of v] obtain y
    where y: "scaleSample (Finite v) = Finite y" "- 32768 \<le> y" "y \<le> 32767"
    by blast
  from sint_ToInt16 [OF y(2,3)] y
  show "\<exists>y. scaleSample (Finite v) = Finite y \<and> - 32768 \<le> y \<and> y \<le> 32767
          \<and> map sint (float32ToInt16 [Finite v]) = [trunc y]"
    by (simp add: float32ToInt16_def)
qed

theorem float_fixed_roundtrip_witness:
  "(\<exists>r. map int16ToFloat32 (float32ToInt16 [Finite (- 1 / 2)]) = [Finite r]
        \<and> \<bar>r - (- 1 / 2)\<bar> < 1 / 32768)
   \<and> map sint (float32ToInt16 [Finite 2]) = [32767]
   \<and> map sint (float32ToInt16 [Finite (- 3)]) = [- 32768]"
proof -
  from float_fixed_roundtrip [of "- 1 / 2"]
  have a: "\<exists>r. map int16ToFloat32 (float32ToInt16 [Finite (- 1 / 2)]) = [Finite r]
        \<and> \<bar>r - (- 1 / 2)\<bar> < 1 / 32768"
    by auto
  from float_fixed_roundtrip [of 2]
  have b: "map sint (float32ToInt16 [Finite 2]) = [32767]"
    by simp
  from float_fixed_roundtrip [of "- 3"]
  have c: "map sint (float32ToInt16 [Finite (- 3)]) = [- 32768]"
    by simp
  from a b c show ?thesis by blast
qed

text \<open>
  The claim of C3 as stated fails: the sample \<open>131071 / 131072\<close>, which is
  \<open>1 - 2\<^sup>-\<^sup>1\<^sup>7\<close> and so a value of a \<^verbatim>\<open>Float32Array\<close>, is stored as 32766 and comes
  back as \<open>32766 / 32768\<close>, more than one step of \<open>1 / 32768\<close> away.
\<close>

theorem one_step_counterexample:
  "- 1 \<le> (131071 / 131072 :: real) \<and> (131071 / 131072 :: real) \<le> 1
   \<and> map sint (float32ToInt16 [Finite (131071 / 131072)]) = [32766]
   \<and> map int16ToFloat32 (float32ToInt16 [Finite (131071 / 131072)])
       = [Finite (32766 / 32768)]
   \<and> (1 / 32768 :: real) < \<bar>32766 / 32768 - 131071 / 131072\<bar>"
  by (simp add: float32ToInt16_def int16ToFloat32_def scaleSample_Finite trunc_def)

subsection \<open>The transport encoding\<close>

lemma bytesInt16_int16Bytes:
  assumes "int16Bytes e w = [b0, b1]"
  shows "bytesInt16 e b0 b1 = w"
proof -
  have "unat w mod 256 + 256 * (unat w div 256) = unat w"
    and "256 * (unat w div 256) + unat w mod 256 = unat w"
    by simp_all
  moreover have "word_of_nat (unat w) = w" by simp
  ultimately have "word_of_nat (unat w mod 256 + 256 * (unat w div 256)) = w"
    and "word_of_nat (256 * (unat w div 256) + unat w mod 256) = w"
    by (simp_all only:)
  with assms show ?thesis
    by (cases e) (simp_all only: int16Bytes_def bytesInt16_def endianness.case list.inject)
qed

lemma int16View_uint8View: "int16View e (uint8View e b) = Inr b"
proof (induction b)
  case Nil
  then show ?case by (simp add: uint8View_def)
next
  case (Cons w ws)
  obtain b0 b1 where bb: "int16Bytes e w = [b0, b1]"
    by (cases e) (simp_all add: int16Bytes_def)
  with Cons bytesInt16_int16Bytes [OF bb] show ?case
    by (simp add: uint8View_def)
qed

lemma int16Bytes_byte: "x \<in> set (int16Bytes e w) \<Longrightarrow> x < 256"
proof -
  have "unat w < 65536" using unsigned_less [of w, where ?'a = nat] by simp
  then have "unat w div 256 < 256" by simp
  moreover assume "x \<in> set (int16Bytes e w)"
  ultimately show ?thesis by (cases e) (auto simp: int16Bytes_def)
qed

lemma uint8View_byte: "x \<in> set (uint8View e b) \<Longrightarrow> x < 256"
  by (auto simp: uint8View_def dest: int16Bytes_byte)

lemma length_uint8View: "length (uint8View e b) = 2 * length b"
  by (induction b) (auto simp: uint8View_def int16Bytes_def split: endianness.splits)

lemma sextetOf_base64Char: "n < 64 \<Longrightarrow> sextetOf (base64Char n) = n"
  by (auto simp: sextetOf_def base64Char_def)

lemma isBase64Char_base64Char: "n < 64 \<Longrightarrow> isBase64Char (base64Char n)"
  by (auto simp: isBase64Char_def base64Char_def)

lemma base64Char_not_pad: "n < 64 \<Longrightarrow> base64Char n \<noteq> 61"
  by (auto simp: base64Char_def)

lemma base64Encode_body: "base64Encode bs = base64Body bs @ padding bs"
  by (induction bs rule: base64Encode.induct) (simp_all add: padding_def)


lemma sextet_bounds:
  fixes a b c :: nat
  shows "a < 256 \<Longrightarrow> a div 4 < 64"
    and "b < 256 \<Longrightarrow> a mod 4 * 16 + b div 16 < 64"
    and "c < 256 \<Longrightarrow> b mod 16 * 4 + c div 64 < 64"
    and "c mod 64 < 64"
    and "a mod 4 * 16 < 64"
    and "b mod 16 * 4 < 64"
proof -
  have m: "a mod 4 < 4" "b mod 16 < 16" by simp_all
  show "a < 256 \<Longrightarrow> a div 4 < 64" by simp
  show "b < 256 \<Longrightarrow> a mod 4 * 16 + b div 16 < 64"
  proof -
    assume "b < 256"
    then have "b div 16 < 16" by simp
    with m(1) show ?thesis by linarith
  qed
  show "c < 256 \<Longrightarrow> b mod 16 * 4 + c div 64 < 64"
  proof -
    assume "c < 256"
    then have "c div 64 < 4" by simp
    with m(2) show ?thesis by linarith
  qed
  show "c mod 64 < 64" by simp
  from m(1) show "a mod 4 * 16 < 64" by linarith
  from m(2) show "b mod 16 * 4 < 64" by linarith
qed

lemma regroup:
  fixes a b c :: nat
  shows "b < 256 \<Longrightarrow> a div 4 * 4 + (a mod 4 * 16 + b div 16) div 16 = a"
    and "b < 256 \<Longrightarrow> c < 256 \<Longrightarrow>
         (a mod 4 * 16 + b div 16) mod 16 * 16 + (b mod 16 * 4 + c div 64) div 4 = b"
    and "c < 256 \<Longrightarrow> (b mod 16 * 4 + c div 64) mod 4 * 64 + c mod 64 = c"
    and "b < 256 \<Longrightarrow> (a mod 4 * 16 + b div 16) mod 16 * 16 + b mod 16 = b"
  by simp_all

lemma base64Body_chars:
  "\<forall>x\<in>set bs. x < 256 \<Longrightarrow> list_all isBase64Char (base64Body bs)"
  by (induction bs rule: base64Body.induct)
    (simp_all add: isBase64Char_base64Char sextet_bounds)

lemma base64Body_decode:
  "\<forall>x\<in>set bs. x < 256 \<Longrightarrow> decodeSextets (map sextetOf (base64Body bs)) = bs"
proof (induction bs rule: base64Body.induct)
  case 1
  then show ?case by simp
next
  case (2 a)
  then show ?case by (simp add: sextetOf_base64Char sextet_bounds)
next
  case (3 a b)
  then have a: "a < 256" and b: "b < 256" by simp_all
  have q: "(a mod 4 * 16 + b div 16) div 16 = a mod 4"
    "(a mod 4 * 16 + b div 16) mod 16 = b div 16"
    using b by simp_all
  have "a div 4 * 4 + a mod 4 = a" "b div 16 * 16 + b mod 16 = b" by simp_all
  with a b q show ?case
    by (simp add: sextetOf_base64Char sextet_bounds)
next
  case (4 a b c bs)
  then have a: "a < 256" and b: "b < 256" and c: "c < 256"
    and r: "\<forall>x\<in>set bs. x < 256" by simp_all
  have q: "(a mod 4 * 16 + b div 16) div 16 = a mod 4"
    "(a mod 4 * 16 + b div 16) mod 16 = b div 16"
    "(b mod 16 * 4 + c div 64) div 4 = b mod 16"
    "(b mod 16 * 4 + c div 64) mod 4 = c div 64"
    using b c by simp_all
  have e: "a div 4 * 4 + a mod 4 = a" "b div 16 * 16 + b mod 16 = b"
    "c div 64 * 64 + c mod 64 = c" by simp_all
  have "decodeSextets (map sextetOf (base64Body (a # b # c # bs)))
      = [a div 4 * 4 + (a mod 4 * 16 + b div 16) div 16,
         (a mod 4 * 16 + b div 16) mod 16 * 16 + (b mod 16 * 4 + c div 64) div 4,
         (b mod 16 * 4 + c div 64) mod 4 * 64 + c mod 64] @ bs"
    using "4.IH" [OF r] by (simp add: sextetOf_base64Char sextet_bounds a b c)
  also have "\<dots> = a # b # c # bs"
    unfolding q e by simp
  finally show ?case .
qed

lemma length_base64Body: "length (base64Body bs) mod 4 \<noteq> 1"
  by (induction bs rule: base64Body.induct) simp_all

lemma length_base64Encode: "length (base64Encode bs) mod 4 = 0"
  by (induction bs rule: base64Encode.induct) simp_all

lemma isBase64Char_plain: "isBase64Char c \<Longrightarrow> c \<noteq> 61 \<and> \<not> isAsciiWhitespace c"
  by (auto simp: isBase64Char_def isAsciiWhitespace_def)

lemma base64Body_last:
  assumes "\<forall>x\<in>set bs. x < 256" "base64Body bs \<noteq> []"
  shows "last (base64Body bs) \<noteq> 61"
proof -
  from assms(2) have "last (base64Body bs) \<in> set (base64Body bs)" by simp
  with base64Body_chars [OF assms(1)] have "isBase64Char (last (base64Body bs))"
    by (simp add: list_all_iff)
  then show ?thesis by (simp add: isBase64Char_plain)
qed

lemma base64Body_empty: "base64Body bs = [] \<longleftrightarrow> bs = []"
  by (induction bs rule: base64Body.induct) simp_all

lemma stripPadding_base64Encode:
  assumes "\<forall>x\<in>set bs. x < 256"
  shows "stripPadding (base64Encode bs) = base64Body bs"
proof (cases "bs = []")
  case True
  then show ?thesis by (simp add: stripPadding_def)
next
  case False
  then have ne: "base64Body bs \<noteq> []" by (simp add: base64Body_empty)
  from base64Body_last [OF assms ne] ne show ?thesis
    by (simp add: base64Encode_body padding_def stripPadding_def butlast_append)
qed

lemma filter_base64Encode:
  assumes "\<forall>x\<in>set bs. x < 256"
  shows "filter (\<lambda>c. \<not> isAsciiWhitespace c) (base64Encode bs) = base64Encode bs"
proof -
  have "\<forall>c\<in>set (base64Body bs). \<not> isAsciiWhitespace c"
    using base64Body_chars [OF assms] by (auto simp: list_all_iff isBase64Char_plain)
  moreover have "\<forall>c\<in>set (padding bs). \<not> isAsciiWhitespace c"
    by (simp add: padding_def isAsciiWhitespace_def)
  ultimately show ?thesis by (simp add: base64Encode_body)
qed

lemma atob_base64Encode:
  assumes "\<forall>x\<in>set bs. x < 256"
  shows "atob (base64Encode bs) = Inr bs"
  using length_base64Body [of bs]
  by (simp add: atob_def Let_def filter_base64Encode [OF assms] length_base64Encode
      stripPadding_base64Encode [OF assms]
      base64Body_chars [OF assms] base64Body_decode [OF assms])

lemma btoa_bytes: "\<forall>x\<in>set bs. x < 256 \<Longrightarrow> btoa bs = Inr (base64Encode bs)"
  by (auto simp: btoa_def list_ex_iff)

lemma map_mod_bytes: "\<forall>x\<in>set bs. x < (256::nat) \<Longrightarrow> map (\<lambda>c. c mod 256) bs = bs"
  by (induction bs) simp_all

lemma encode_decode:
  "int16ToBase64 e b = Inr (base64Encode (uint8View e b))"
  "atob (base64Encode (uint8View e b)) = Inr (uint8View e b)"
  "base64ToInt16 e (base64Encode (uint8View e b)) = Inr b"
  "base64ToFloat32 e (base64Encode (uint8View e b)) = Inr (map int16ToFloat32 b)"
proof -
  have bytes: "\<forall>x\<in>set (uint8View e b). x < 256"
    by (simp add: uint8View_byte)
  show 1: "int16ToBase64 e b = Inr (base64Encode (uint8View e b))"
    by (simp add: int16ToBase64_def btoa_bytes [OF bytes])
  show 2: "atob (base64Encode (uint8View e b)) = Inr (uint8View e b)"
    by (rule atob_base64Encode [OF bytes])
  show 3: "base64ToInt16 e (base64Encode (uint8View e b)) = Inr b"
    by (simp add: base64ToInt16_def 2 map_mod_bytes [OF bytes] int16View_uint8View)
  show "base64ToFloat32 e (base64Encode (uint8View e b)) = Inr (map int16ToFloat32 b)"
    by (simp add: base64ToFloat32_def 3)
qed

lemma base64Char_sextetOf: "isBase64Char c \<Longrightarrow> base64Char (sextetOf c) = c"
  by (auto simp: isBase64Char_def base64Char_def sextetOf_def)

lemma sextetOf_bound: "isBase64Char c \<Longrightarrow> sextetOf c < 64"
  by (auto simp: isBase64Char_def sextetOf_def)

lemma group_back:
  fixes p q r s :: nat
  assumes "p < 64" "q < 64" "r < 64" "s < 64"
  shows "(p * 4 + q div 16) div 4 = p"
    and "(p * 4 + q div 16) mod 4 * 16 + (q mod 16 * 16 + r div 4) div 16 = q"
    and "(q mod 16 * 16 + r div 4) mod 16 * 4 + (r mod 4 * 64 + s) div 64 = r"
    and "(r mod 4 * 64 + s) mod 64 = s"
    and "q mod 16 = 0 \<Longrightarrow> (p * 4 + q div 16) mod 4 * 16 = q"
    and "r mod 4 = 0 \<Longrightarrow> (q mod 16 * 16 + r div 4) mod 16 * 4 = r"
    and "p * 4 + q div 16 < 256" "q mod 16 * 16 + r div 4 < 256" "r mod 4 * 64 + s < 256"
proof -
  have q4: "q div 16 < 4" and r16: "r div 4 < 16" using assms by simp_all
  have qm: "q mod 16 < 16" and rm: "r mod 4 < 4" by simp_all
  have a: "(p * 4 + q div 16) div 4 = p" "(p * 4 + q div 16) mod 4 = q div 16"
    using q4 by simp_all
  have b: "(q mod 16 * 16 + r div 4) div 16 = q mod 16"
    "(q mod 16 * 16 + r div 4) mod 16 = r div 4"
    using r16 by simp_all
  have c: "(r mod 4 * 64 + s) div 64 = r mod 4" "(r mod 4 * 64 + s) mod 64 = s"
    using assms(4) by simp_all
  show "(p * 4 + q div 16) div 4 = p" by (rule a(1))
  show "(p * 4 + q div 16) mod 4 * 16 + (q mod 16 * 16 + r div 4) div 16 = q"
    unfolding a b by simp
  show "(q mod 16 * 16 + r div 4) mod 16 * 4 + (r mod 4 * 64 + s) div 64 = r"
    unfolding b c by simp
  show "(r mod 4 * 64 + s) mod 64 = s" by (rule c(2))
  show "q mod 16 = 0 \<Longrightarrow> (p * 4 + q div 16) mod 4 * 16 = q"
    unfolding a using div_mult_mod_eq [of q 16] by simp
  show "r mod 4 = 0 \<Longrightarrow> (q mod 16 * 16 + r div 4) mod 16 * 4 = r"
    unfolding b using div_mult_mod_eq [of r 4] by simp
  show "p * 4 + q div 16 < 256" using assms(1) q4 by linarith
  show "q mod 16 * 16 + r div 4 < 256" using qm r16 by linarith
  show "r mod 4 * 64 + s < 256" using rm assms(4) by linarith
qed

lemma canonical_is_encoding:
  "canonicalBase64 x \<Longrightarrow>
   base64Encode (canonicalBytes x) = x \<and> (\<forall>b\<in>set (canonicalBytes x). b < 256)"
proof (induction x rule: canonicalBase64.induct)
  case 1
  then show ?case by simp
next
  case (2 p q r s rest)
  from "2.prems" have p: "isBase64Char p" and q: "isBase64Char q" by simp_all
  note sp = sextetOf_bound [OF p] and sq = sextetOf_bound [OF q]
  define a where "a = sextetOf p * 4 + sextetOf q div 16"
  show ?case
  proof (cases "r = 61")
    case True
    with "2.prems" have s: "s = 61" and e: "rest = []" and z: "sextetOf q mod 16 = 0"
      by simp_all
    from group_back(1,7) [OF sp sq sq sq] group_back(5) [OF sp sq sq sq z]
    have "a div 4 = sextetOf p" "a < 256" "a mod 4 * 16 = sextetOf q"
      by (simp_all only: a_def)
    moreover have "canonicalBytes (p # q # r # s # rest) = [a]"
      using True by (simp add: a_def)
    ultimately show ?thesis
      using True s e p q by (simp add: base64Char_sextetOf)
  next
    case False
    with "2.prems" have r: "isBase64Char r" by simp
    note sr = sextetOf_bound [OF r]
    define b where "b = sextetOf q mod 16 * 16 + sextetOf r div 4"
    show ?thesis
    proof (cases "s = 61")
      case True
      with False "2.prems" have e: "rest = []" and z: "sextetOf r mod 4 = 0"
        by simp_all
      from group_back(1,2,7,8) [OF sp sq sr sr] group_back(6) [OF sp sq sr sr z]
      have "a div 4 = sextetOf p" "a mod 4 * 16 + b div 16 = sextetOf q" "a < 256" "b < 256"
        "b mod 16 * 4 = sextetOf r"
        by (simp_all only: a_def b_def)
      moreover have "canonicalBytes (p # q # r # s # rest) = [a, b]"
        using True False by (simp add: a_def b_def)
      ultimately show ?thesis
        using True e p q r by (simp add: base64Char_sextetOf)
    next
      case s61: False
      with False "2.prems" have s: "isBase64Char s" and c: "canonicalBase64 rest"
        by simp_all
      note ss = sextetOf_bound [OF s]
      define c' where "c' = sextetOf r mod 4 * 64 + sextetOf s"
      from group_back(1,2,3,4,7,8,9) [OF sp sq sr ss]
      have "a div 4 = sextetOf p" "a mod 4 * 16 + b div 16 = sextetOf q"
        "b mod 16 * 4 + c' div 64 = sextetOf r" "c' mod 64 = sextetOf s"
        "a < 256" "b < 256" "c' < 256"
        by (simp_all only: a_def b_def c'_def)
      moreover have "canonicalBytes (p # q # r # s # rest) = a # b # c' # canonicalBytes rest"
        using False s61 by (simp add: a_def b_def c'_def)
      ultimately show ?thesis
        using "2.IH" [OF False s61 c] p q r s by (simp add: base64Char_sextetOf)
    qed
  qed
qed simp_all

lemma encoding_is_canonical:
  "\<forall>b\<in>set bs. b < 256 \<Longrightarrow> canonicalBase64 (base64Encode bs)"
proof (induction bs rule: base64Encode.induct)
  case 1
  then show ?case by simp
next
  case (2 a)
  then show ?case
    by (simp add: isBase64Char_base64Char sextetOf_base64Char sextet_bounds)
next
  case (3 a b)
  then show ?case
    by (simp add: isBase64Char_base64Char sextetOf_base64Char sextet_bounds base64Char_not_pad)
next
  case (4 a b c bs)
  then show ?case
    by (simp add: isBase64Char_base64Char sextet_bounds base64Char_not_pad)
qed

lemma int16Bytes_bytesInt16:
  assumes "b0 < 256" "b1 < 256"
  shows "int16Bytes e (bytesInt16 e b0 b1) = [b0, b1]"
proof -
  have "b0 + 256 * b1 < 65536" "256 * b0 + b1 < 65536" using assms by simp_all
  then have "unat (word_of_nat (b0 + 256 * b1) :: 16 word) = b0 + 256 * b1"
    and "unat (word_of_nat (256 * b0 + b1) :: 16 word) = 256 * b0 + b1"
    by (simp_all add: unat_of_nat del: of_nat_add of_nat_mult)
  with assms show ?thesis
    by (cases e) (simp_all add: int16Bytes_def bytesInt16_def del: of_nat_add of_nat_mult)
qed

lemma uint8View_int16View:
  "\<forall>b\<in>set bs. b < 256 \<Longrightarrow> int16View e bs = Inr d \<Longrightarrow> uint8View e d = bs"
proof (induction e bs arbitrary: d rule: int16View.induct)
  case (1 e)
  then show ?case by (simp add: uint8View_def)
next
  case (2 e b)
  then show ?case by simp
next
  case (3 e b0 b1 bs)
  from "3.prems"(2) obtain ws where ws: "int16View e bs = Inr ws"
    and d: "d = bytesInt16 e b0 b1 # ws"
    by (auto split: sum.splits)
  from "3.prems"(1) have "\<forall>b\<in>set bs. b < 256" "b0 < 256" "b1 < 256" by simp_all
  with "3.IH" [OF _ ws] int16Bytes_bytesInt16 [of b0 b1 e] d show ?case
    by (simp add: uint8View_def)
qed

lemma inj_overFullScale:
  "map (\<lambda>w :: 16 word. Finite (real_of_int (sint w) / 32768)) d
     = map (\<lambda>w. Finite (real_of_int (sint w) / 32768)) b \<Longrightarrow> d = b"
proof -
  have "inj (\<lambda>w :: 16 word. Finite (real_of_int (sint w) / 32768))"
    by (rule injI) (simp add: signed_word_eqI)
  then show "map (\<lambda>w :: 16 word. Finite (real_of_int (sint w) / 32768)) d
     = map (\<lambda>w. Finite (real_of_int (sint w) / 32768)) b \<Longrightarrow> d = b"
    by (simp add: inj_map_eq_map)
qed

lemma decode_canonical:
  assumes "canonicalBase64 x" "base64ToFloat32 e x = Inr fs"
  shows "\<exists>d. fs = map (\<lambda>w. Finite (real_of_int (sint w) / 32768)) d
            \<and> int16ToBase64 e d = Inr x"
proof -
  let ?bs = "canonicalBytes x"
  from canonical_is_encoding [OF assms(1)]
  have enc: "base64Encode ?bs = x" and bytes: "\<forall>b\<in>set ?bs. b < 256" by simp_all
  from atob_base64Encode [OF bytes] enc have a: "atob x = Inr ?bs" by simp
  from assms(2) a obtain d where d: "int16View e ?bs = Inr d"
    and fs: "fs = map int16ToFloat32 d"
    by (auto simp: base64ToFloat32_def base64ToInt16_def map_mod_bytes [OF bytes]
        split: sum.splits)
  from uint8View_int16View [OF bytes d] have "uint8View e d = ?bs" .
  with bytes enc have "int16ToBase64 e d = Inr x"
    by (simp add: int16ToBase64_def btoa_bytes)
  moreover from fs have "fs = map (\<lambda>w. Finite (real_of_int (sint w) / 32768)) d"
    by (simp add: int16ToFloat32_def)
  ultimately show ?thesis by blast
qed

text \<open>
  C4, as the code has it. For every buffer \<open>b\<close> of 16-bit samples and either byte order,
  the encoding succeeds and is canonical; \<open>base64ToFloat32\<close> of it gives the samples of
  \<open>b\<close> over \<^verbatim>\<open>0x8000\<close>, as many as \<open>b\<close> has, and no other buffer gives these floats, so
  \<open>b\<close> is reconstructed exactly; the bytes under the encoding are exactly two for each
  sample. And whenever \<open>base64ToFloat32\<close> accepts a canonical string, what it returns
  is a buffer of 16-bit samples over \<^verbatim>\<open>0x8000\<close>, and the encoding of that buffer is the
  string again.
\<close>

theorem transport_roundtrip:
  "(\<exists>x. int16ToBase64 e b = Inr x
        \<and> canonicalBase64 x
        \<and> base64ToFloat32 e x = Inr (map (\<lambda>w. Finite (real_of_int (sint w) / 32768)) b)
        \<and> (\<forall>d. base64ToFloat32 e x = Inr (map (\<lambda>w. Finite (real_of_int (sint w) / 32768)) d)
               \<longrightarrow> d = b)
        \<and> (\<exists>binary. atob x = Inr binary \<and> length binary = 2 * length b))
   \<and> (\<forall>x fs. canonicalBase64 x \<and> base64ToFloat32 e x = Inr fs \<longrightarrow>
          (\<exists>d. fs = map (\<lambda>w. Finite (real_of_int (sint w) / 32768)) d
               \<and> length fs = length d
               \<and> int16ToBase64 e d = Inr x))"
proof (intro conjI allI impI)
  let ?x = "base64Encode (uint8View e b)"
  have f: "base64ToFloat32 e ?x = Inr (map (\<lambda>w. Finite (real_of_int (sint w) / 32768)) b)"
    using encode_decode(4) [of e b] by (simp add: int16ToFloat32_def)
  have "canonicalBase64 ?x"
    by (rule encoding_is_canonical) (simp add: uint8View_byte)
  moreover have "\<forall>d. base64ToFloat32 e ?x
        = Inr (map (\<lambda>w. Finite (real_of_int (sint w) / 32768)) d) \<longrightarrow> d = b"
    using f inj_overFullScale by auto
  moreover have "\<exists>binary. atob ?x = Inr binary \<and> length binary = 2 * length b"
    using encode_decode(2) [of e b] length_uint8View [of e b] by simp
  ultimately show "\<exists>x. int16ToBase64 e b = Inr x
        \<and> canonicalBase64 x
        \<and> base64ToFloat32 e x = Inr (map (\<lambda>w. Finite (real_of_int (sint w) / 32768)) b)
        \<and> (\<forall>d. base64ToFloat32 e x = Inr (map (\<lambda>w. Finite (real_of_int (sint w) / 32768)) d)
               \<longrightarrow> d = b)
        \<and> (\<exists>binary. atob x = Inr binary \<and> length binary = 2 * length b)"
    using encode_decode(1) [of e b] f by blast
next
  fix x fs
  assume "canonicalBase64 x \<and> base64ToFloat32 e x = Inr fs"
  then obtain d where "fs = map (\<lambda>w. Finite (real_of_int (sint w) / 32768)) d"
    and "int16ToBase64 e d = Inr x"
    using decode_canonical [of x e fs] by blast
  then show "\<exists>d. fs = map (\<lambda>w. Finite (real_of_int (sint w) / 32768)) d
               \<and> length fs = length d
               \<and> int16ToBase64 e d = Inr x"
    by auto
qed

theorem transport_roundtrip_witness:
  "int16ToBase64 LittleEndian [1, 65535, 258] = Inr (js ''AQD//wIB'')
   \<and> canonicalBase64 (js ''AQD//wIB'')
   \<and> base64ToFloat32 LittleEndian (js ''AQD//wIB'')
       = Inr (map (\<lambda>w :: 16 word. Finite (real_of_int (sint w) / 32768)) [1, 65535, 258])
   \<and> (\<exists>d. map (\<lambda>w :: 16 word. Finite (real_of_int (sint w) / 32768)) [1, 65535, 258]
            = map (\<lambda>w. Finite (real_of_int (sint w) / 32768)) d
          \<and> int16ToBase64 LittleEndian d = Inr (js ''AQD//wIB''))"
proof -
  let ?F = "\<lambda>w :: 16 word. Finite (real_of_int (sint w) / 32768)"
  have h: "int16ToBase64 LittleEndian [1, 65535, 258] = Inr (js ''AQD//wIB'')"
    by (simp add: int16ToBase64_def uint8View_def int16Bytes_def btoa_def base64Char_def
        js_def)
  from transport_roundtrip [of LittleEndian "[1, 65535, 258]"]
  obtain x where x: "int16ToBase64 LittleEndian [1, 65535, 258] = Inr x"
    and cx: "canonicalBase64 x"
    and fx: "base64ToFloat32 LittleEndian x = Inr (map ?F [1, 65535, 258])"
    by blast
  from x h have "x = js ''AQD//wIB''" by simp
  with cx fx have c: "canonicalBase64 (js ''AQD//wIB'')"
    and f: "base64ToFloat32 LittleEndian (js ''AQD//wIB'') = Inr (map ?F [1, 65535, 258])"
    by simp_all
  from transport_roundtrip [of LittleEndian "[]"]
  have "\<forall>x fs. canonicalBase64 x \<and> base64ToFloat32 LittleEndian x = Inr fs \<longrightarrow>
          (\<exists>d. fs = map ?F d \<and> length fs = length d \<and> int16ToBase64 LittleEndian d = Inr x)"
    by (rule conjunct2)
  with c f have "\<exists>d. map ?F [1, 65535, 258] = map ?F d
      \<and> int16ToBase64 LittleEndian d = Inr (js ''AQD//wIB'')"
    by blast
  with h c f show ?thesis by blast
qed

text \<open>
  The claim of C4 as stated fails. The decoder accepts strings that no encoder produces
  (\<open>AAA\<close> without its padding, \<open>AAB=\<close> with a bit set below the last byte); both decode
  to the one sample 0, whose encoding is \<open>AAA=\<close>. And the code's own way from the floats
  back to 16-bit samples, \<open>float32ToInt16\<close>, does not undo the division by \<^verbatim>\<open>0x8000\<close>:
  through it even the canonical \<open>AQD//wIB\<close> (the samples 1, -1, 258) comes back as
  \<open>AAD//wEB\<close> (the samples 0, -1, 257).
\<close>

theorem reencode_counterexample:
  "base64ToFloat32 LittleEndian (js ''AAA'') = Inr [Finite 0]
   \<and> base64ToFloat32 LittleEndian (js ''AAB='') = Inr [Finite 0]
   \<and> int16ToBase64 LittleEndian [0] = Inr (js ''AAA='')
   \<and> js ''AAA='' \<noteq> js ''AAA'' \<and> js ''AAA='' \<noteq> js ''AAB=''
   \<and> base64ToFloat32 LittleEndian (js ''AQD//wIB'')
       = Inr [Finite (1 / 32768), Finite (- 1 / 32768), Finite (258 / 32768)]
   \<and> int16ToBase64 LittleEndian
         (float32ToInt16 [Finite (1 / 32768), Finite (- 1 / 32768), Finite (258 / 32768)])
       = Inr (js ''AAD//wEB'')
   \<and> js ''AAD//wEB'' \<noteq> js ''AQD//wIB''"
proof -
  have d: "base64ToInt16 LittleEndian (js ''AAA'') = Inr [0]"
    "base64ToInt16 LittleEndian (js ''AAB='') = Inr [0]"
    "base64ToInt16 LittleEndian (js ''AQD//wIB'') = Inr [1, 65535, 258]"
    by (simp_all add: base64ToInt16_def atob_def isAsciiWhitespace_def stripPadding_def
        isBase64Char_def sextetOf_def bytesInt16_def js_def Let_def)
  have s: "sint (65535 :: 16 word) = - 1" by simp
  have f: "base64ToFloat32 LittleEndian (js ''AAA'') = Inr [Finite 0]"
    "base64ToFloat32 LittleEndian (js ''AAB='') = Inr [Finite 0]"
    "base64ToFloat32 LittleEndian (js ''AQD//wIB'')
       = Inr [Finite (1 / 32768), Finite (- 1 / 32768), Finite (258 / 32768)]"
    by (simp_all add: base64ToFloat32_def d int16ToFloat32_def s)
  have q: "float32ToInt16 [Finite (1 / 32768), Finite (- 1 / 32768), Finite (258 / 32768)]
      = [0, 65535, 257]"
    by (simp add: float32ToInt16_def scaleSample_Finite trunc_def)
  have e: "int16ToBase64 LittleEndian [0] = Inr (js ''AAA='')"
    "int16ToBase64 LittleEndian [0, 65535, 257] = Inr (js ''AAD//wEB'')"
    by (simp_all add: int16ToBase64_def uint8View_def int16Bytes_def btoa_def base64Char_def
        js_def)
  have n: "js ''AAA='' \<noteq> js ''AAA''" "js ''AAA='' \<noteq> js ''AAB=''"
    "js ''AAD//wEB'' \<noteq> js ''AQD//wIB''"
    by (simp_all add: js_def)
  from f e n show ?thesis unfolding q by blast
qed

section \<open>Properties of the playback scheduler\<close>

lemma started_append [simp]: "started (es @ es') = started es @ started es'"
  by (induction es rule: started.induct) simp_all

lemma finished_append [simp]: "finished (es @ es') = finished es @ finished es'"
  by (induction es rule: finished.induct) simp_all

lemma nowPlaying_append [simp]: "nowPlaying cur (es @ es') = nowPlaying (nowPlaying cur es) es'"
  by (induction cur es rule: nowPlaying.induct) simp_all

lemma noOverlap_append [simp]:
  "noOverlap cur (es @ es') = (noOverlap cur es \<and> noOverlap (nowPlaying cur es) es')"
  by (induction cur es rule: noOverlap.induct) simp_all












text \<open>
  An audio message whose chunk is a single space is truthy, decodes to no bytes, and so
  enqueues a segment without samples.
\<close>

lemma whitespace_chunk:
  "handleWebSocketMessage e now (Audio (Some (js '' ''))) a = playAudioChunk [] a"
  by (simp add: handleWebSocketMessage_def truthy_def stringOf_def base64ToFloat32_def
      base64ToInt16_def atob_def isAsciiWhitespace_def stripPadding_def js_def Let_def)


end
